theory Spec2Isabelle
  imports Main "HOL-Library.AList"
begin

section \<open>Data model of \<^verbatim>\<open>bravado/mapping/operation.py\<close>\<close>

text \<open>
  Python values that travel through the module: call-time argument values, request
  dicts, JSON bodies and schema nodes. \<open>PNone\<close> is Python's \<^verbatim>\<open>None\<close>. A dict is an
  association list in the iteration order of the dict, with lookup by \<open>map_of\<close>.
\<close>

datatype pyval =
    PNone
  | PBool bool
  | PInt int
  | PStr string
  | PList "pyval list"
  | PDict "(string \<times> pyval) list"

text \<open>
  Exceptions as values. The payload is the message (for \<open>KeyError\<close> the missing key).
  \<open>KeyError\<close>, \<open>TypeError\<close>, \<open>AttributeError\<close>, \<open>NotImplementedError\<close> and
  \<open>SwaggerError\<close> are the classes this module raises itself; \<open>Raised cls msg\<close> is an
  exception of class \<open>cls\<close> that comes out of a collaborator whose code is elsewhere
  (\<^verbatim>\<open>Param\<close>, \<^verbatim>\<open>marshal_param\<close>, \<^verbatim>\<open>unmarshal_schema_object\<close>, \<^verbatim>\<open>response.json\<close>).
\<close>

datatype error =
    KeyError string
  | TypeError string
  | AttributeError string
  | NotImplementedError string
  | SwaggerError string
  | Raised string string

text \<open>
  Modelled from the spec: the class \<^verbatim>\<open>Param\<close> of \<^verbatim>\<open>bravado.mapping.param\<close> is imported by
  the module and its code is not part of the sources. The Parameter Model of the
  specification has a name, a location, a type (a schema node), the \<^verbatim>\<open>required\<close> flag and
  an optional default; \<^verbatim>\<open>has_default()\<close> is true iff a default is declared.
\<close>

datatype location = InPath | InQuery | InHeader | InBody | InFormData

record Param =
  name :: string
  location :: location
  param_type :: pyval
  required :: bool
  default_value :: "pyval option"

definition has_default :: "Param \<Rightarrow> bool" where
  "has_default p = (default_value p \<noteq> None)"

text \<open>
  The pieces of the Swagger spec dict that the module reads, typed by the keys it
  reads. An optional key is an \<open>option\<close>. A response specification is a dict; the
  declared responses map a status code in string form (or \<^verbatim>\<open>'default'\<close>) to one.
\<close>

type_synonym response_spec = "(string \<times> pyval) list"

record op_spec =
  op_parameters :: "pyval list option"
  operationId :: "string option"
  responses :: "(string \<times> response_spec) list option"

record path_spec =
  path_parameters :: "pyval list option"

record spec_dict =
  paths :: "(string \<times> path_spec) list option"

record Spec =
  spec_dict :: spec_dict
  api_url :: string

text \<open>
  Dicts that the module mutates live in a heap: a list of cells, an address is an
  index, and a fresh dict is allocated at the end. \<^verbatim>\<open>self.params\<close> holds an address, so
  that an alias and a copy are different things in the model as they are in Python.
  A reference of a Python object is never dangling; a theorem about a given operation
  and heap says so as \<open>params self < length h\<close>. The order of a dict's entries is the
  order in which Python iterates over it, which Python 2 does not fix: the theorems hold
  for every order.
\<close>

type_synonym addr = nat
type_synonym pdict = "(string \<times> Param) list"
type_synonym heap = "pdict list"

record Operation =
  swagger_spec :: Spec
  path_name :: string
  http_method :: string
  op_spec :: op_spec
  private_operation_id :: "string option"
  params :: addr

section \<open>String methods\<close>

text \<open>\<^verbatim>\<open>s.replace(old, new)\<close> for a one-character \<open>old\<close>.\<close>

definition replace_char :: "char \<Rightarrow> string \<Rightarrow> string \<Rightarrow> string" where
  "replace_char old new s = concat (map (\<lambda>c. if c = old then new else [c]) s)"

text \<open>
  \<^verbatim>\<open>s.replace('__', '_')\<close>: one pass from the left over the occurrences that do not
  overlap; the scan goes on after the replaced pair.
\<close>

fun replace_uu :: "string \<Rightarrow> string" where
  "replace_uu (a # b # s) =
     (if a = CHR ''_'' \<and> b = CHR ''_'' then CHR ''_'' # replace_uu s
      else a # replace_uu (b # s))"
| "replace_uu s = s"

text \<open>\<^verbatim>\<open>s.strip('_')\<close>: the leading and the trailing underscores go.\<close>

definition strip_u :: "string \<Rightarrow> string" where
  "strip_u s = rev (dropWhile (\<lambda>c. c = CHR ''_'') (rev (dropWhile (\<lambda>c. c = CHR ''_'') s)))"

section \<open>\<^verbatim>\<open>Operation.operation_id\<close>\<close>

text \<open>
  The property memoizes in \<^verbatim>\<open>self._operation_id\<close> (here \<open>private_operation_id\<close>), so it
  returns the id and the object after the access.
\<close>

definition derive_operation_id :: "string \<Rightarrow> string \<Rightarrow> string" where
  "derive_operation_id method path =
     strip_u (replace_uu
       (replace_char (CHR ''}'') ''_''
         (replace_char (CHR ''{'') ''_''
           (replace_char (CHR ''/'') ''_'' (method @ ''_'' @ path)))))"

definition operation_id :: "Operation \<Rightarrow> string \<times> Operation" where
  "operation_id self =
     (case private_operation_id self of
        Some i \<Rightarrow> (i, self)
      | None \<Rightarrow>
          (case operationId (op_spec self) of
             Some i \<Rightarrow> (i, self\<lparr>private_operation_id := Some i\<rparr>)
           | None \<Rightarrow>
               (let i = derive_operation_id (http_method self) (path_name self)
                in (i, self\<lparr>private_operation_id := Some i\<rparr>))))"

text \<open>\<^verbatim>\<open>Operation.__init__\<close>: the id is not computed yet and \<^verbatim>\<open>self.params\<close> is a new dict.\<close>

definition init_Operation :: "Spec \<Rightarrow> string \<Rightarrow> string \<Rightarrow> op_spec \<Rightarrow> heap \<Rightarrow> Operation \<times> heap" where
  "init_Operation sw pn hm os h =
     (\<lparr>swagger_spec = sw, path_name = pn, http_method = hm, op_spec = os,
       private_operation_id = None, params = length h\<rparr>, h @ [[]])"

text \<open>\<^verbatim>\<open>Operation.__repr__\<close>.\<close>

definition repr_Operation :: "Operation \<Rightarrow> string \<times> Operation" where
  "repr_Operation self =
     (let (i, self') = operation_id self in (''Operation('' @ i @ '')'', self'))"

section \<open>\<^verbatim>\<open>Operation.build_params\<close>\<close>

text \<open>
  \<^verbatim>\<open>dict.get(key, default)\<close> on an optional key of a typed dict.
\<close>

definition get_default :: "'a option \<Rightarrow> 'a \<Rightarrow> 'a" where
  "get_default v d = (case v of None \<Rightarrow> d | Some x \<Rightarrow> x)"

text \<open>
  The loop of \<^verbatim>\<open>build_params\<close> over \<^verbatim>\<open>param_specs\<close>. The constructor \<^verbatim>\<open>Param\<close> is the
  argument \<open>mk_Param\<close>, since its code is not part of the sources; it may raise.
  \<^verbatim>\<open>self.params[param.name] = param\<close> writes into the dict at address \<open>a\<close>.
\<close>

fun build_params_loop ::
  "(Spec \<Rightarrow> pyval \<Rightarrow> error + Param) \<Rightarrow> Spec \<Rightarrow> addr \<Rightarrow> pyval list \<Rightarrow> heap \<Rightarrow> (error + unit) \<times> heap"
where
  "build_params_loop mk_Param sw a [] h = (Inr (), h)"
| "build_params_loop mk_Param sw a (param_spec # rest) h =
     (case mk_Param sw param_spec of
        Inl e \<Rightarrow> (Inl e, h)
      | Inr param \<Rightarrow>
          build_params_loop mk_Param sw a rest (h[a := AList.update (name param) param (h ! a)]))"

text \<open>
  \<^verbatim>\<open>self.params = {}\<close> binds the attribute to a new dict before anything can fail. The
  two subscripts \<^verbatim>\<open>spec_dict['paths'][self.path_name]\<close> raise \<^verbatim>\<open>KeyError\<close> on a missing key.
  The list that the loop walks is \<^verbatim>\<open>op_param_specs + path_param_specs\<close>, in this order.
\<close>

definition build_params ::
  "(Spec \<Rightarrow> pyval \<Rightarrow> error + Param) \<Rightarrow> Operation \<Rightarrow> heap \<Rightarrow> (error + unit) \<times> Operation \<times> heap"
where
  "build_params mk_Param self0 h0 =
     (let self = self0\<lparr>params := length h0\<rparr>;
          h = h0 @ [[]];
          op_param_specs = get_default (op_parameters (op_spec self)) []
      in case paths (spec_dict (swagger_spec self)) of
           None \<Rightarrow> (Inl (KeyError ''paths''), self, h)
         | Some ps \<Rightarrow>
             (case map_of ps (path_name self) of
                None \<Rightarrow> (Inl (KeyError (path_name self)), self, h)
              | Some path_specs \<Rightarrow>
                  (let path_param_specs = get_default (path_parameters path_specs) [];
                       param_specs = op_param_specs @ path_param_specs;
                       (r, h') = build_params_loop mk_Param (swagger_spec self) (params self) param_specs h
                   in (r, self, h'))))"

text \<open>\<^verbatim>\<open>Operation.from_spec\<close>.\<close>

definition from_spec ::
  "(Spec \<Rightarrow> pyval \<Rightarrow> error + Param) \<Rightarrow> Spec \<Rightarrow> string \<Rightarrow> string \<Rightarrow> op_spec \<Rightarrow> heap
     \<Rightarrow> (error + Operation) \<times> heap"
where
  "from_spec mk_Param sw pn hm os h0 =
     (let (op, h1) = init_Operation sw pn hm os h0;
          (r, op', h2) = build_params mk_Param op h1
      in case r of Inl e \<Rightarrow> (Inl e, h2) | Inr _ \<Rightarrow> (Inr op', h2))"

section \<open>\<^verbatim>\<open>Operation.construct_params\<close> and \<^verbatim>\<open>Operation.construct_request\<close>\<close>

text \<open>
  \<^verbatim>\<open>marshal_param(param, value, request)\<close> of \<^verbatim>\<open>bravado.mapping.param\<close> is the argument
  \<open>marshal_param\<close>: it takes the request dict and returns the request dict after its
  writes, or raises. When a call raises, the model keeps the exception and drops the
  request with the writes made so far.

  The first loop walks \<^verbatim>\<open>op_kwargs.iteritems()\<close>; \<^verbatim>\<open>current_params\<close> is the dict at address
  \<open>cur\<close>, and \<^verbatim>\<open>pop\<close> deletes the key there. The message of the \<^verbatim>\<open>TypeError\<close> reads
  \<^verbatim>\<open>self.operation_id\<close>, which memoizes.
\<close>

fun consume_kwargs ::
  "(Param \<Rightarrow> pyval \<Rightarrow> pyval \<Rightarrow> error + pyval) \<Rightarrow> addr \<Rightarrow> (string \<times> pyval) list \<Rightarrow> pyval
     \<Rightarrow> Operation \<Rightarrow> heap \<Rightarrow> (error + pyval) \<times> Operation \<times> heap"
where
  "consume_kwargs marshal_param cur [] request self h = (Inr request, self, h)"
| "consume_kwargs marshal_param cur ((param_name, param_value) # rest) request self h =
     (case map_of (h ! cur) param_name of
        None \<Rightarrow>
          (let (i, self') = operation_id self
           in (Inl (TypeError (i @ '' does not have parameter '' @ param_name)), self', h))
      | Some param \<Rightarrow>
          (let h' = h[cur := AList.delete param_name (h ! cur)]
           in case marshal_param param param_value request of
                Inl e \<Rightarrow> (Inl e, self, h')
              | Inr request' \<Rightarrow> consume_kwargs marshal_param cur rest request' self h'))"

text \<open>The second loop walks \<^verbatim>\<open>current_params.itervalues()\<close>, the parameters left over.\<close>

fun check_remaining ::
  "(Param \<Rightarrow> pyval \<Rightarrow> pyval \<Rightarrow> error + pyval) \<Rightarrow> Param list \<Rightarrow> pyval \<Rightarrow> error + pyval"
where
  "check_remaining marshal_param [] request = Inr request"
| "check_remaining marshal_param (remaining_param # rest) request =
     (if required remaining_param
      then Inl (TypeError (name remaining_param @ '' is a required parameter''))
      else if \<not> required remaining_param \<and> has_default remaining_param
      then (case marshal_param remaining_param PNone request of
              Inl e \<Rightarrow> Inl e
            | Inr request' \<Rightarrow> check_remaining marshal_param rest request')
      else check_remaining marshal_param rest request)"

text \<open>\<^verbatim>\<open>self.params.copy()\<close> allocates a new dict with the same entries.\<close>

definition construct_params ::
  "(Param \<Rightarrow> pyval \<Rightarrow> pyval \<Rightarrow> error + pyval) \<Rightarrow> Operation \<Rightarrow> pyval \<Rightarrow> (string \<times> pyval) list
     \<Rightarrow> heap \<Rightarrow> (error + pyval) \<times> Operation \<times> heap"
where
  "construct_params marshal_param self request op_kwargs h0 =
     (let current_params = length h0;
          h = h0 @ [h0 ! params self]
      in case consume_kwargs marshal_param current_params op_kwargs request self h of
           (Inl e, self', h') \<Rightarrow> (Inl e, self', h')
         | (Inr request', self', h') \<Rightarrow>
             (check_remaining marshal_param (map snd (h' ! current_params)) request', self', h'))"

text \<open>
  \<^verbatim>\<open>kwargs.pop('_request_options', {})\<close>, then the request dict, then the parameters.
  \<^verbatim>\<open>request_options.get\<close> exists when the value is a dict.
\<close>

definition construct_request ::
  "(Param \<Rightarrow> pyval \<Rightarrow> pyval \<Rightarrow> error + pyval) \<Rightarrow> Operation \<Rightarrow> (string \<times> pyval) list
     \<Rightarrow> heap \<Rightarrow> (error + pyval) \<times> Operation \<times> heap"
where
  "construct_request marshal_param self kwargs0 h =
     (let request_options = get_default (map_of kwargs0 ''_request_options'') (PDict []);
          kwargs = AList.delete ''_request_options'' kwargs0
      in case request_options of
           PDict ro \<Rightarrow>
             (let request = PDict
                    [(''method'', PStr (http_method self)),
                     (''url'', PStr (api_url (swagger_spec self) @ path_name self)),
                     (''params'', PDict []),
                     (''headers'', get_default (map_of ro ''headers'') (PDict []))]
              in construct_params marshal_param self request kwargs h)
         | _ \<Rightarrow> (Inl (AttributeError ''get''), self, h))"

text \<open>
  \<^verbatim>\<open>Operation.__call__\<close>. The logging line reads \<^verbatim>\<open>self.operation_id\<close>. The transport is
  reached through \<^verbatim>\<open>HTTPFuture\<close> of \<^verbatim>\<open>bravado.response\<close> only, which gets the request that
  was constructed; here it is a constructor that holds the request.
\<close>

datatype future = HTTPFuture pyval

definition call_Operation ::
  "(Param \<Rightarrow> pyval \<Rightarrow> pyval \<Rightarrow> error + pyval) \<Rightarrow> Operation \<Rightarrow> (string \<times> pyval) list
     \<Rightarrow> heap \<Rightarrow> (error + future) \<times> Operation \<times> heap"
where
  "call_Operation marshal_param self0 kwargs h =
     (let (i, self) = operation_id self0
      in case construct_request marshal_param self kwargs h of
           (Inl e, self', h') \<Rightarrow> (Inl e, self', h')
         | (Inr request, self', h') \<Rightarrow> (Inr (HTTPFuture request), self', h'))"

section \<open>Responses\<close>

text \<open>\<^verbatim>\<open>str(status_code)\<close> for an \<^verbatim>\<open>int\<close>.\<close>

fun str_nat :: "nat \<Rightarrow> string" where
  "str_nat n =
     (if n < 10 then [''0123456789'' ! n]
      else str_nat (n div 10) @ [''0123456789'' ! (n mod 10)])"

definition str_int :: "int \<Rightarrow> string" where
  "str_int i = (if i < 0 then CHR ''-'' # str_nat (nat (- i)) else str_nat (nat i))"

text \<open>
  \<^verbatim>\<open>get_response_spec\<close>. When \<^verbatim>\<open>responses\<close> is not declared, \<^verbatim>\<open>op_spec.get\<close> gives
  \<^verbatim>\<open>None\<close> and the next line raises \<^verbatim>\<open>AttributeError\<close>. The message is formatted from
  \<^verbatim>\<open>op\<close> (its \<^verbatim>\<open>__repr__\<close>) at \<^verbatim>\<open>{0}\<close> and from \<^verbatim>\<open>status_code\<close> at \<^verbatim>\<open>{1}\<close>.
\<close>

definition get_response_spec :: "int \<Rightarrow> Operation \<Rightarrow> (error + response_spec) \<times> Operation" where
  "get_response_spec status_code op =
     (case responses (op_spec op) of
        None \<Rightarrow> (Inl (AttributeError ''get''), op)
      | Some response_specs \<Rightarrow>
          (let default_response_spec = map_of response_specs ''default'';
               response_spec =
                 (case map_of response_specs (str_int status_code) of
                    Some r \<Rightarrow> Some r
                  | None \<Rightarrow> default_response_spec)
           in case response_spec of
                None \<Rightarrow>
                  (let (r, op') = repr_Operation op
                   in (Inl (SwaggerError
                        (''Response specification matching http status_code '' @ r @
                         '' not found for '' @ str_int status_code @
                         ''. Either add a response specifiction for the status_code '' @
                         ''or use a `default` response.'')), op'))
              | Some r \<Rightarrow> (Inr r, op)))"

text \<open>
  A response as \<^verbatim>\<open>unmarshal_response\<close> uses it: the attribute \<^verbatim>\<open>status_code\<close> and the
  method \<^verbatim>\<open>json()\<close>, whose outcome (the decoded body, or the exception of a body that is
  not JSON) is the field \<open>json\<close>.
\<close>

record ResponseLike =
  status_code :: int
  json :: "error + pyval"

text \<open>
  \<^verbatim>\<open>unmarshal_response\<close>; \<^verbatim>\<open>unmarshal_schema_object\<close> of \<^verbatim>\<open>bravado.mapping.unmarshal\<close> is
  an argument and may raise.
\<close>

definition has_content :: "response_spec \<Rightarrow> bool" where
  "has_content response_spec = (map_of response_spec ''schema'' \<noteq> None)"

definition unmarshal_response ::
  "(Spec \<Rightarrow> pyval \<Rightarrow> pyval \<Rightarrow> error + pyval) \<Rightarrow> Spec \<Rightarrow> response_spec \<Rightarrow> ResponseLike
     \<Rightarrow> error + (int \<times> pyval)"
where
  "unmarshal_response unmarshal_schema_object sw response_spec response =
     (if \<not> has_content response_spec then Inr (status_code response, PNone)
      else
        (let content_spec = the (map_of response_spec ''schema'')
         in case json response of
              Inl e \<Rightarrow> Inl e
            | Inr content_value \<Rightarrow>
                (case unmarshal_schema_object sw content_spec content_value of
                   Inl e \<Rightarrow> Inl e
                 | Inr v \<Rightarrow> Inr (status_code response, v))))"

text \<open>
  What \<^verbatim>\<open>handle_response\<close> is given: a \<^verbatim>\<open>requests.models.Response\<close>, or an object of
  another type, of which only the text of \<^verbatim>\<open>type(response)\<close> is used.
  \<^verbatim>\<open>RequestsLibResponseAdapter\<close> wraps the former into the interface above.
\<close>

datatype response = RequestsResponse ResponseLike | OtherResponse string

definition RequestsLibResponseAdapter :: "ResponseLike \<Rightarrow> ResponseLike" where
  "RequestsLibResponseAdapter r = r"

definition handle_response ::
  "(Spec \<Rightarrow> pyval \<Rightarrow> pyval \<Rightarrow> error + pyval) \<Rightarrow> response \<Rightarrow> Operation
     \<Rightarrow> (error + (int \<times> pyval)) \<times> Operation"
where
  "handle_response unmarshal_schema_object response op =
     (case response of
        OtherResponse ty \<Rightarrow> (Inl (NotImplementedError (''TODO: Handle response of type '' @ ty)), op)
      | RequestsResponse r \<Rightarrow>
          (let wrapped_response = RequestsLibResponseAdapter r
           in case get_response_spec (status_code wrapped_response) op of
                (Inl e, op') \<Rightarrow> (Inl e, op')
              | (Inr response_spec, op') \<Rightarrow>
                  (unmarshal_response unmarshal_schema_object (swagger_spec op')
                     response_spec wrapped_response, op')))"

section \<open>The calls of the marshaler, as the specification words them\<close>

text \<open>
  The specification describes \<^verbatim>\<open>construct_params\<close> by the calls of the marshaler it makes:
  one for each supplied argument, with the parameter of that name and the value given,
  and then one with \<^verbatim>\<open>None\<close> for each parameter that was not supplied, is not required
  and has a default. \<open>marshal_each\<close> runs such a list of calls on a request and stops at
  the first that raises. These definitions follow the specification; the theorems below
  compare them with \<open>construct_params\<close>.
\<close>

fun marshal_each ::
  "(Param \<Rightarrow> pyval \<Rightarrow> pyval \<Rightarrow> error + pyval) \<Rightarrow> (Param \<times> pyval) list \<Rightarrow> pyval
     \<Rightarrow> error + pyval"
where
  "marshal_each mp [] request = Inr request"
| "marshal_each mp ((p, v) # calls) request =
     (case mp p v request of Inl e \<Rightarrow> Inl e | Inr request' \<Rightarrow> marshal_each mp calls request')"

definition supplied_calls :: "pdict \<Rightarrow> (string \<times> pyval) list \<Rightarrow> (Param \<times> pyval) list" where
  "supplied_calls d kw = map (\<lambda>(k, v). (the (map_of d k), v)) kw"

text \<open>The entries of the parameter set whose name is not among the arguments.\<close>

definition unsupplied :: "pdict \<Rightarrow> (string \<times> pyval) list \<Rightarrow> pdict" where
  "unsupplied d kw = filter (\<lambda>(k, p). k \<notin> set (map fst kw)) d"

definition default_calls :: "pdict \<Rightarrow> (string \<times> pyval) list \<Rightarrow> (Param \<times> pyval) list" where
  "default_calls d kw =
     map (\<lambda>(k, p). (p, PNone))
       (filter (\<lambda>(k, p). \<not> required p \<and> has_default p) (unsupplied d kw))"

text \<open>
  The first loop raises at the first argument whose name the parameter set does not
  have; the arguments before it have been marshaled by then. The second loop raises at
  the first required parameter that is left; the defaults of the optional parameters
  before it have been marshaled by then. These are the calls made before each raise.
\<close>

definition known :: "pdict \<Rightarrow> string \<times> pyval \<Rightarrow> bool" where
  "known d kv = (map_of d (fst kv) \<noteq> None)"

definition first_unknown :: "pdict \<Rightarrow> (string \<times> pyval) list \<Rightarrow> string" where
  "first_unknown d kw = fst (hd (dropWhile (known d) kw))"

definition calls_before_unknown :: "pdict \<Rightarrow> (string \<times> pyval) list \<Rightarrow> (Param \<times> pyval) list" where
  "calls_before_unknown d kw = supplied_calls d (takeWhile (known d) kw)"

definition first_required :: "pdict \<Rightarrow> (string \<times> pyval) list \<Rightarrow> Param" where
  "first_required d kw = hd (dropWhile (\<lambda>p. \<not> required p) (map snd (unsupplied d kw)))"

definition calls_before_required :: "pdict \<Rightarrow> (string \<times> pyval) list \<Rightarrow> (Param \<times> pyval) list" where
  "calls_before_required d kw =
     supplied_calls d kw @
     map (\<lambda>p. (p, PNone))
       (filter has_default (takeWhile (\<lambda>p. \<not> required p) (map snd (unsupplied d kw))))"

text \<open>
  A parameter set as \<^verbatim>\<open>build_params\<close> makes it: a dict (no key twice) in which every
  \<^verbatim>\<open>Param\<close> sits under its own name.
\<close>

definition keyed_by_name :: "pdict \<Rightarrow> bool" where
  "keyed_by_name d = (distinct (map fst d) \<and> list_all (\<lambda>(k, p). name p = k) d)"

text \<open>
  What the loop of \<^verbatim>\<open>build_params\<close> leaves in the dict when the constructor gave the
  parameters \<open>ps\<close>, in this order: each is stored under its own name.
\<close>

definition store_all :: "Param list \<Rightarrow> pdict \<Rightarrow> pdict" where
  "store_all ps d = fold (\<lambda>p. AList.update (name p) p) ps d"

section \<open>Instances of the collaborators, and a small spec to run the module on\<close>

text \<open>
  Modelled from the spec: the constructor of \<^verbatim>\<open>Param\<close> (\<^verbatim>\<open>bravado.mapping.param\<close>, not
  part of the sources). It is built from the parameter's spec subtree, true for
  \<^verbatim>\<open>has_default()\<close> iff the subtree declares a default, and a subtree without a name or
  with an unrecognized location fails with SpecValidationError at construction time.
  The theorems below hold for every constructor; this one runs the examples.
\<close>

definition location_of :: "string \<Rightarrow> location option" where
  "location_of s =
     (if s = ''path'' then Some InPath
      else if s = ''query'' then Some InQuery
      else if s = ''header'' then Some InHeader
      else if s = ''body'' then Some InBody
      else if s = ''formData'' then Some InFormData
      else None)"

definition Param_init :: "Spec \<Rightarrow> pyval \<Rightarrow> error + Param" where
  "Param_init sw param_spec =
     (case param_spec of
        PDict d \<Rightarrow>
          (case map_of d ''name'' of
             Some (PStr n) \<Rightarrow>
               (case map_of d ''in'' of
                  Some (PStr l) \<Rightarrow>
                    (case location_of l of
                       Some loc \<Rightarrow>
                         Inr \<lparr>name = n, location = loc,
                              param_type = get_default (map_of d ''type'') PNone,
                              required = (map_of d ''required'' = Some (PBool True)),
                              default_value = map_of d ''default''\<rparr>
                     | None \<Rightarrow> Inl (Raised ''SpecValidationError'' l))
                | _ \<Rightarrow> Inl (Raised ''SpecValidationError'' ''in''))
           | _ \<Rightarrow> Inl (Raised ''SpecValidationError'' ''name''))
      | _ \<Rightarrow> Inl (Raised ''SpecValidationError'' ''parameter''))"

text \<open>
  A pet store with one path that declares a shared parameter \<^verbatim>\<open>limit\<close> (optional, with
  a default), and the operation \<^verbatim>\<open>get\<close> on it, which declares \<^verbatim>\<open>petId\<close> and its own
  \<^verbatim>\<open>limit\<close> (required, without a default).
\<close>

definition pet_responses :: "(string \<times> response_spec) list" where
  "pet_responses =
     [(''200'', [(''schema'', PDict [(''type'', PStr ''object'')])]), (''default'', [])]"

definition petstore :: Spec where
  "petstore =
     \<lparr>spec_dict = \<lparr>paths = Some
        [(''/pet/{petId}'', \<lparr>path_parameters = Some
            [PDict [(''name'', PStr ''limit''), (''in'', PStr ''query''),
                    (''type'', PStr ''integer''), (''default'', PInt 10)]]\<rparr>),
         (''/pet'', \<lparr>path_parameters = None\<rparr>)]\<rparr>,
      api_url = ''http://petstore.test/v2''\<rparr>"

definition get_pet_spec :: op_spec where
  "get_pet_spec =
     \<lparr>op_parameters = Some
        [PDict [(''name'', PStr ''petId''), (''in'', PStr ''path''),
                (''type'', PStr ''integer''), (''required'', PBool True)],
         PDict [(''name'', PStr ''limit''), (''in'', PStr ''query''),
                (''type'', PStr ''integer''), (''required'', PBool True)],
         PDict [(''name'', PStr ''verbose''), (''in'', PStr ''query''),
                (''type'', PStr ''boolean'')]],
      operationId = Some ''getPetById'',
      responses = Some pet_responses\<rparr>"

definition get_pet :: Operation where
  "get_pet =
     \<lparr>swagger_spec = petstore, path_name = ''/pet/{petId}'', http_method = ''get'',
      op_spec = get_pet_spec, private_operation_id = None, params = 0\<rparr>"

text \<open>
  Modelled from the spec: \<^verbatim>\<open>marshal_param\<close> (\<^verbatim>\<open>bravado.mapping.param\<close>, not part of the
  sources) for the location \<^verbatim>\<open>query\<close>: the value is added to the query map of the
  request under the parameter's name, and for the value \<^verbatim>\<open>None\<close> the marshaler applies
  the declared default. This instance writes every parameter to the query map and
  never raises; the theorems hold for every marshaler, this one runs the examples.
\<close>

definition marshal_query :: "Param \<Rightarrow> pyval \<Rightarrow> pyval \<Rightarrow> error + pyval" where
  "marshal_query param v request =
     (let val = (if v = PNone then get_default (default_value param) PNone else v)
      in case request of
           PDict r \<Rightarrow>
             Inr (PDict (AList.update ''params''
                    (PDict (AList.update (name param) val
                       (case map_of r ''params'' of Some (PDict q) \<Rightarrow> q | _ \<Rightarrow> [])))
                    r))
         | _ \<Rightarrow> Inr request)"

text \<open>
  Modelled from the spec: a marshaling failure is terminal for the call, and a raw value
  that cannot be coerced to the declared scalar type fails. This instance of
  \<^verbatim>\<open>marshal_param\<close> raises for a value that is neither an integer nor \<^verbatim>\<open>None\<close> when the
  parameter's type is integer, and is \<open>marshal_query\<close> otherwise.
\<close>

definition marshal_typed :: "Param \<Rightarrow> pyval \<Rightarrow> pyval \<Rightarrow> error + pyval" where
  "marshal_typed param v request =
     (case v of
        PNone \<Rightarrow> marshal_query param v request
      | PInt i \<Rightarrow> marshal_query param v request
      | _ \<Rightarrow>
          (if param_type param = PStr ''integer''
           then Inl (Raised ''ValidationError'' (name param))
           else marshal_query param v request))"

text \<open>
  The operation after \<^verbatim>\<open>build_params\<close>, with its parameter set at address 1 of the heap,
  and the request dict that \<^verbatim>\<open>construct_request\<close> starts from.
\<close>

definition petId_param :: Param where
  "petId_param =
     \<lparr>name = ''petId'', location = InPath, param_type = PStr ''integer'',
      required = True, default_value = None\<rparr>"

definition limit_param :: Param where
  "limit_param =
     \<lparr>name = ''limit'', location = InQuery, param_type = PStr ''integer'',
      required = False, default_value = Some (PInt 10)\<rparr>"

definition verbose_param :: Param where
  "verbose_param =
     \<lparr>name = ''verbose'', location = InQuery, param_type = PStr ''boolean'',
      required = False, default_value = None\<rparr>"

definition pet_params :: pdict where
  "pet_params =
     [(''petId'', petId_param), (''limit'', limit_param), (''verbose'', verbose_param)]"

definition pet_op :: Operation where
  "pet_op = get_pet\<lparr>params := 1\<rparr>"

definition pet_heap :: heap where
  "pet_heap = [[], pet_params]"

definition pet_request :: pyval where
  "pet_request =
     PDict [(''method'', PStr ''get''),
            (''url'', PStr ''http://petstore.test/v2/pet/{petId}''),
            (''params'', PDict []), (''headers'', PDict [])]"

text \<open>
  Modelled from the spec: \<^verbatim>\<open>unmarshal_schema_object\<close> (\<^verbatim>\<open>bravado.mapping.unmarshal\<close>, not
  part of the sources) for a schema of type integer: a scalar passes through, a null raw
  value gives the absence value, and a raw value of another type fails with
  SchemaUnmarshalError. The theorems hold for every unmarshaler; this one runs the
  examples.
\<close>

definition unmarshal_integer :: "Spec \<Rightarrow> pyval \<Rightarrow> pyval \<Rightarrow> error + pyval" where
  "unmarshal_integer sw schema raw =
     (case raw of
        PNone \<Rightarrow> Inr PNone
      | PInt i \<Rightarrow> Inr (PInt i)
      | _ \<Rightarrow> Inl (Raised ''SchemaUnmarshalError'' ''integer''))"

section \<open>The operation id\<close>

lemma operation_id_example:
  "fst (operation_id (get_pet\<lparr>op_spec := get_pet_spec\<lparr>operationId := None\<rparr>\<rparr>)) = ''get_pet_petId''"
  by (simp add: get_pet_def get_pet_spec_def operation_id_def derive_operation_id_def
      replace_char_def strip_u_def Let_def)

lemma operation_id_get_pet: "fst (operation_id get_pet) = ''getPetById''"
  by (simp add: get_pet_def get_pet_spec_def operation_id_def)

lemma operation_id_explicit:
  "private_operation_id self = None \<Longrightarrow> operationId (op_spec self) = Some i \<Longrightarrow>
     operation_id self = (i, self\<lparr>private_operation_id := Some i\<rparr>)"
  by (simp add: operation_id_def)

text \<open>
  The derived id holds none of the characters \<^verbatim>\<open>/\<close>, \<^verbatim>\<open>{\<close> and \<^verbatim>\<open>}\<close>: each is replaced, and
  the later steps only drop characters.
\<close>

lemma replace_uu_subset: "set (replace_uu s) \<subseteq> set s"
  by (induction s rule: replace_uu.induct) auto

lemma strip_u_subset: "set (strip_u s) \<subseteq> set s"
proof
  fix c
  assume "c \<in> set (strip_u s)"
  then have "c \<in> set (dropWhile (\<lambda>c. c = CHR ''_'') (rev (dropWhile (\<lambda>c. c = CHR ''_'') s)))"
    by (simp add: strip_u_def)
  then have "c \<in> set (rev (dropWhile (\<lambda>c. c = CHR ''_'') s))"
    by (rule set_dropWhileD)
  then have "c \<in> set (dropWhile (\<lambda>c. c = CHR ''_'') s)" by simp
  then show "c \<in> set s" by (rule set_dropWhileD)
qed

lemma replace_char_removes: "c \<noteq> CHR ''_'' \<Longrightarrow> c \<notin> set (replace_char c ''_'' s)"
  by (induction s) (simp_all add: replace_char_def)

lemma replace_char_keeps_out:
  "c \<notin> set s \<Longrightarrow> c \<noteq> CHR ''_'' \<Longrightarrow> c \<notin> set (replace_char d ''_'' s)"
  by (induction s) (simp_all add: replace_char_def)

lemma derive_operation_id_subset:
  "set (derive_operation_id hm pn) \<subseteq>
     set (replace_char (CHR ''}'') ''_'' (replace_char (CHR ''{'') ''_''
            (replace_char (CHR ''/'') ''_'' (hm @ ''_'' @ pn))))"
  unfolding derive_operation_id_def
  by (rule subset_trans [OF strip_u_subset replace_uu_subset])

lemma derive_operation_id_no_slash: "CHR ''/'' \<notin> set (derive_operation_id hm pn)"
proof -
  have "CHR ''/'' \<notin> set (replace_char (CHR ''}'') ''_'' (replace_char (CHR ''{'') ''_''
            (replace_char (CHR ''/'') ''_'' (hm @ ''_'' @ pn))))"
    by (intro replace_char_keeps_out replace_char_removes) simp_all
  with derive_operation_id_subset [of hm pn] show ?thesis by blast
qed

lemma derive_operation_id_no_brace:
  "CHR ''{'' \<notin> set (derive_operation_id hm pn)"
  "CHR ''}'' \<notin> set (derive_operation_id hm pn)"
proof -
  have "CHR ''{'' \<notin> set (replace_char (CHR ''}'') ''_'' (replace_char (CHR ''{'') ''_''
            (replace_char (CHR ''/'') ''_'' (hm @ ''_'' @ pn))))"
    by (intro replace_char_keeps_out replace_char_removes) simp_all
  with derive_operation_id_subset [of hm pn]
  show "CHR ''{'' \<notin> set (derive_operation_id hm pn)" by blast
  have "CHR ''}'' \<notin> set (replace_char (CHR ''}'') ''_'' (replace_char (CHR ''{'') ''_''
            (replace_char (CHR ''/'') ''_'' (hm @ ''_'' @ pn))))"
    by (intro replace_char_removes) simp_all
  with derive_operation_id_subset [of hm pn]
  show "CHR ''}'' \<notin> set (derive_operation_id hm pn)" by blast
qed

text \<open>
  Claim C6. The derived id is the method, an underscore and the path with \<^verbatim>\<open>/\<close>, \<^verbatim>\<open>{\<close>,
  \<^verbatim>\<open>}\<close> replaced by underscores, runs of underscores collapsed to one and the ends
  trimmed. The code collapses with one pass of \<^verbatim>\<open>replace('__', '_')\<close>, which halves a
  run and leaves two underscores of a run of three: for the method \<^verbatim>\<open>get\<close> and the path
  \<^verbatim>\<open>/{id}\<close> the id is \<^verbatim>\<open>get__id\<close>, where the claim gives \<^verbatim>\<open>get_id\<close>.
\<close>

theorem operation_id_run_of_three:
  "fst (operation_id
         \<lparr>swagger_spec = sw, path_name = ''/{id}'', http_method = ''get'',
          op_spec = \<lparr>op_parameters = ps, operationId = None, responses = rs\<rparr>,
          private_operation_id = None, params = a\<rparr>) = ''get__id''"
  by (simp add: operation_id_def derive_operation_id_def replace_char_def strip_u_def Let_def)

section \<open>Building the parameter set\<close>

text \<open>
  When the paths table has the operation's path and the constructor builds every
  declaration, \<^verbatim>\<open>build_params\<close> binds \<^verbatim>\<open>self.params\<close> to a new dict that holds the
  operation-level parameters and then the path-level ones, each under its name. Its keys
  are the names of both lists, every entry sits under its own name, and under a name
  that the path-level list declares the entry is the last path-level declaration of it.
\<close>

lemma store_all_simps [simp]:
  "store_all [] d = d"
  "store_all (p # ps) d = store_all ps (AList.update (name p) p d)"
  by (simp_all add: store_all_def)

lemma store_all_keys: "fst ` set (store_all ps d) = fst ` set d \<union> name ` set ps"
  by (induction ps arbitrary: d) (auto simp: dom_update)

lemma list_all_update:
  "list_all P d \<Longrightarrow> P (k, v) \<Longrightarrow> list_all P (AList.update k v d)"
  by (induction d) auto

lemma keyed_by_name_update:
  "keyed_by_name d \<Longrightarrow> keyed_by_name (AList.update (name p) p d)"
  unfolding keyed_by_name_def
  by (simp add: distinct_update list_all_update)

lemma find_append_case:
  "find P (xs @ ys) = (case find P xs of None \<Rightarrow> find P ys | Some x \<Rightarrow> Some x)"
  by (induction xs) simp_all

lemma store_all_keyed: "keyed_by_name d \<Longrightarrow> keyed_by_name (store_all ps d)"
  by (induction ps arbitrary: d) (simp_all add: keyed_by_name_update)

lemma store_all_lookup:
  "map_of (store_all ps d) k =
     (case find (\<lambda>p. name p = k) (rev ps) of Some p \<Rightarrow> Some p | None \<Rightarrow> map_of d k)"
proof (induction ps arbitrary: d)
  case Nil
  then show ?case by simp
next
  case (Cons p ps)
  show ?case
    by (simp add: Cons.IH find_append_case update_conv' split: option.splits)
qed

lemma build_params_loop_store:
  "a < length h \<Longrightarrow> map (mk_Param sw) specs = map Inr ps \<Longrightarrow>
     build_params_loop mk_Param sw a specs h = (Inr (), h[a := store_all ps (h ! a)])"
proof (induction specs arbitrary: h ps)
  case Nil
  then show ?case by simp
next
  case (Cons s specs)
  then obtain p ps' where ps: "ps = p # ps'" "mk_Param sw s = Inr p"
      "map (mk_Param sw) specs = map Inr ps'"
    by (cases ps) auto
  let ?h1 = "h[a := AList.update (name p) p (h ! a)]"
  from Cons.prems(1) have "a < length ?h1" by simp
  from Cons.IH [OF this ps(3)] Cons.prems(1) ps(1,2) show ?case by simp
qed

lemma build_params_loop_raises:
  "build_params_loop mk_Param sw a specs h = (Inl e, h') \<Longrightarrow> \<exists>s \<in> set specs. mk_Param sw s = Inl e"
  by (induction specs arbitrary: h) (auto split: sum.splits)

lemma build_params_merge:
  assumes "paths (spec_dict (swagger_spec self)) = Some ps"
      and "map_of ps (path_name self) = Some path_specs"
      and "map (mk_Param (swagger_spec self)) (get_default (op_parameters (op_spec self)) []) =
             map Inr op_params"
      and "map (mk_Param (swagger_spec self)) (get_default (path_parameters path_specs) []) =
             map Inr path_params"
  shows "build_params mk_Param self h =
           (Inr (), self\<lparr>params := length h\<rparr>, h @ [store_all (op_params @ path_params) []])"
proof -
  let ?h1 = "h @ [[]]"
  have a: "length h < length ?h1" by simp
  from assms(3,4) have
    "map (mk_Param (swagger_spec self))
       (get_default (op_parameters (op_spec self)) [] @ get_default (path_parameters path_specs) []) =
     map Inr (op_params @ path_params)" by simp
  from build_params_loop_store [of "length h" ?h1 mk_Param "swagger_spec self" _ "op_params @ path_params",
      OF a this] assms(1,2) show ?thesis
    by (simp add: build_params_def Let_def)
qed

lemma build_params_key_set:
  "fst ` set (store_all (op_params @ path_params) []) = name ` set op_params \<union> name ` set path_params"
  by (simp add: store_all_keys Un_commute image_Un)

lemma build_params_keyed_by_name: "keyed_by_name (store_all ps [])"
  by (rule store_all_keyed) (simp add: keyed_by_name_def)

lemma build_params_collision:
  "map_of (store_all (op_params @ path_params) []) k =
     (case find (\<lambda>p. name p = k) (rev path_params) of
        Some p \<Rightarrow> Some p
      | None \<Rightarrow> find (\<lambda>p. name p = k) (rev op_params))"
  by (simp add: store_all_lookup find_append_case split: option.splits)

text \<open>
  Claim C1. On a name declared at both levels the claim keeps the operation-level
  Parameter Model. The loop walks the operation-level list first and the path-level
  list after it, and a later write replaces an earlier one: for \<^verbatim>\<open>limit\<close> of the pet
  store the set keeps the path-level declaration (optional, default 10), not the
  operation-level one (required).
\<close>

theorem build_params_keeps_path_level:
  "map_of (snd (snd (build_params Param_init get_pet [[]])) !
            params (fst (snd (build_params Param_init get_pet [[]])))) ''limit'' =
     Some \<lparr>name = ''limit'', location = InQuery, param_type = PStr ''integer'',
           required = False, default_value = Some (PInt 10)\<rparr>"
  by (simp add: build_params_def get_pet_def get_pet_spec_def petstore_def get_default_def
      Param_init_def location_of_def Let_def)

text \<open>
  Claim C8, as stated: a path name that the paths table lacks makes \<^verbatim>\<open>build_params\<close> fail
  with SpecValidationError and no other class. The subscript raises \<^verbatim>\<open>KeyError\<close>.
\<close>

theorem build_params_missing_path_counterexample:
  "fst (build_params Param_init (get_pet\<lparr>path_name := ''/store''\<rparr>) [[]]) =
     Inl (KeyError ''/store'')"
  by (simp add: build_params_def get_pet_def get_pet_spec_def petstore_def get_default_def
      Let_def)

text \<open>
  Claim C8, amended: when the paths table has no entry for the operation's path name,
  \<^verbatim>\<open>build_params\<close> fails with the \<^verbatim>\<open>KeyError\<close> of that name, whatever the constructor of
  \<^verbatim>\<open>Param\<close> does; no parameter is built, and \<^verbatim>\<open>self.params\<close> is the new empty dict.
\<close>

theorem build_params_missing_path:
  assumes "paths (spec_dict (swagger_spec self)) = Some ps"
      and "map_of ps (path_name self) = None"
  shows "build_params mk_Param self h =
           (Inl (KeyError (path_name self)), self\<lparr>params := length h\<rparr>, h @ [[]])"
  using assms by (simp add: build_params_def Let_def)

theorem build_params_missing_path_witness:
  "build_params Param_init (get_pet\<lparr>path_name := ''/store''\<rparr>) [[]] =
     (Inl (KeyError ''/store''), get_pet\<lparr>path_name := ''/store'', params := 1\<rparr>, [[], []])"
  using build_params_missing_path [of "get_pet\<lparr>path_name := ''/store''\<rparr>"
      "the (paths (spec_dict petstore))" Param_init "[[]]"]
  by (simp add: get_pet_def petstore_def)

section \<open>Resolving and unmarshaling a response\<close>

lemma str_int_200: "str_int 200 = ''200''"
  by code_simp

lemma str_int_404: "str_int 404 = ''404''"
  by code_simp

lemma str_int_500: "str_int 500 = ''500''"
  by code_simp

text \<open>
  Claim C2. With declared responses \<open>rs\<close>, whose entries are response specifications
  (dicts, as the docstring types them): the entry under the string form of the status
  code is returned when there is one; else the entry under \<^verbatim>\<open>'default'\<close> when there is
  one; else the call fails with a \<^verbatim>\<open>SwaggerError\<close> whose message holds the operation (its
  \<^verbatim>\<open>repr\<close>, with the operation id) and the status code.
\<close>

theorem get_response_spec_lookup:
  assumes "responses (op_spec op) = Some rs"
  shows "(map_of rs (str_int s) = Some r \<longrightarrow> get_response_spec s op = (Inr r, op)) \<and>
         (map_of rs (str_int s) = None \<and> map_of rs ''default'' = Some d \<longrightarrow>
            get_response_spec s op = (Inr d, op)) \<and>
         (map_of rs (str_int s) = None \<and> map_of rs ''default'' = None \<longrightarrow>
            fst (get_response_spec s op) =
              Inl (SwaggerError
                (''Response specification matching http status_code '' @
                 ''Operation('' @ fst (operation_id op) @ '')'' @
                 '' not found for '' @ str_int s @
                 ''. Either add a response specifiction for the status_code '' @
                 ''or use a `default` response.'')))"
  using assms by (simp add: get_response_spec_def repr_Operation_def split_beta Let_def)

theorem get_response_spec_lookup_witness:
  "get_response_spec 200 get_pet =
     (Inr [(''schema'', PDict [(''type'', PStr ''object'')])], get_pet) \<and>
   get_response_spec 404 get_pet = (Inr [], get_pet) \<and>
   fst (get_response_spec 500
         (get_pet\<lparr>op_spec := get_pet_spec\<lparr>responses := Some [(''200'', [])]\<rparr>\<rparr>)) =
     Inl (SwaggerError
       (''Response specification matching http status_code Operation(getPetById)'' @
        '' not found for 500. Either add a response specifiction for the status_code '' @
        ''or use a `default` response.''))"
  using get_response_spec_lookup [of get_pet pet_responses 200
          "[(''schema'', PDict [(''type'', PStr ''object'')])]" "[]"]
        get_response_spec_lookup [of get_pet pet_responses 404 "[]" "[]"]
        get_response_spec_lookup
          [of "get_pet\<lparr>op_spec := get_pet_spec\<lparr>responses := Some [(''200'', [])]\<rparr>\<rparr>"
              "[(''200'', [])]" 500 "[]" "[]"]
  by (simp add: get_pet_def get_pet_spec_def pet_responses_def str_int_200 str_int_404
      str_int_500 operation_id_def derive_operation_id_def replace_char_def strip_u_def Let_def)

text \<open>
  Claim C9. A response that is not a \<^verbatim>\<open>requests.models.Response\<close> makes
  \<^verbatim>\<open>handle_response\<close> fail with the error the code has for an unsupported response type
  (\<^verbatim>\<open>NotImplementedError\<close>, with the type in the message), whatever the operation's
  responses and the unmarshaler are, and with the operation as it was: no response
  specification is resolved and nothing is unmarshaled before.
\<close>

theorem handle_response_unsupported:
  "handle_response unmarshal_schema_object (OtherResponse ty) op =
     (Inl (NotImplementedError (''TODO: Handle response of type '' @ ty)), op)"
  by (simp add: handle_response_def)

text \<open>
  Claim C7. \<^verbatim>\<open>unmarshal_response\<close> returns a pair whose first component is the status
  code. Without a \<^verbatim>\<open>schema\<close> key in the response specification the pair holds \<^verbatim>\<open>None\<close>
  whatever \<^verbatim>\<open>json()\<close> would give, also when it would raise: the body is not read. With a
  \<^verbatim>\<open>schema\<close> key the value is what \<^verbatim>\<open>unmarshal_schema_object\<close> makes of the decoded body
  and that schema, and an exception of \<^verbatim>\<open>json()\<close> or of the unmarshaler goes to the caller.
\<close>

theorem unmarshal_response_pair:
  "(map_of response_spec ''schema'' = None \<longrightarrow>
      unmarshal_response unmarshal_schema_object sw response_spec (response\<lparr>json := body\<rparr>) =
        Inr (status_code response, PNone)) \<and>
   (map_of response_spec ''schema'' = Some schema \<longrightarrow>
      unmarshal_response unmarshal_schema_object sw response_spec response =
        (case json response of
           Inl e \<Rightarrow> Inl e
         | Inr raw \<Rightarrow>
             (case unmarshal_schema_object sw schema raw of
                Inl e \<Rightarrow> Inl e
              | Inr v \<Rightarrow> Inr (status_code response, v)))) \<and>
   (unmarshal_response unmarshal_schema_object sw response_spec response = Inr (c, v) \<longrightarrow>
      c = status_code response)"
  by (auto simp: unmarshal_response_def has_content_def Let_def split: sum.splits)

theorem unmarshal_response_pair_witness:
  "unmarshal_response unmarshal_integer petstore []
      \<lparr>status_code = 204, json = Inl (Raised ''ValueError'' ''No JSON object could be decoded'')\<rparr> =
     Inr (204, PNone) \<and>
   unmarshal_response unmarshal_integer petstore [(''schema'', PDict [(''type'', PStr ''integer'')])]
      \<lparr>status_code = 200, json = Inr (PInt 3)\<rparr> = Inr (200, PInt 3)"
  using unmarshal_response_pair [where response_spec = "[]"
          and unmarshal_schema_object = unmarshal_integer and sw = petstore
          and response = "\<lparr>status_code = 204, json = Inr PNone\<rparr>"
          and body = "Inl (Raised ''ValueError'' ''No JSON object could be decoded'')"
          and schema = PNone and c = 204 and v = PNone]
        unmarshal_response_pair
          [where response_spec = "[(''schema'', PDict [(''type'', PStr ''integer'')])]"
          and unmarshal_schema_object = unmarshal_integer and sw = petstore
          and response = "\<lparr>status_code = 200, json = Inr (PInt 3)\<rparr>"
          and body = "Inr (PInt 3)" and schema = "PDict [(''type'', PStr ''integer'')]"
          and c = 200 and v = "PInt 3"]
  by (simp add: unmarshal_integer_def)

section \<open>Marshaling the call arguments\<close>

subsection \<open>The two loops\<close>

lemma operation_id_params [simp]: "params (snd (operation_id self)) = params self"
  by (simp add: operation_id_def Let_def split: option.splits)

lemma operation_id_idem [simp]: "fst (operation_id (snd (operation_id self))) = fst (operation_id self)"
  by (simp add: operation_id_def Let_def split: option.splits)

lemma delete_filter: "AList.delete k d = filter (\<lambda>(k', p). k' \<noteq> k) d"
  by (induction d) (auto simp: AList.delete_eq)

lemma consume_kwargs_frame:
  "consume_kwargs mp cur kw req self h = (r, self', h') \<Longrightarrow>
     length h' = length h \<and> (\<forall>a. a \<noteq> cur \<longrightarrow> h' ! a = h ! a) \<and>
     (self' = self \<or> self' = snd (operation_id self))"
proof (induction kw arbitrary: req h)
  case Nil
  then show ?case by simp
next
  case (Cons kv kw)
  obtain k v where kv: "kv = (k, v)" by (cases kv)
  show ?case
  proof (cases "map_of (h ! cur) k")
    case None
    with Cons.prems kv show ?thesis by (auto simp: split_beta Let_def)
  next
    case (Some p)
    show ?thesis
    proof (cases "mp p v req")
      case (Inl e)
      with Cons.prems kv Some show ?thesis by (auto simp: Let_def)
    next
      case (Inr req1)
      with Cons.prems kv Some
      have "consume_kwargs mp cur kw req1 self (h[cur := AList.delete k (h ! cur)]) = (r, self', h')"
        by (simp add: Let_def)
      from Cons.IH [OF this] show ?thesis by auto
    qed
  qed
qed

lemma consume_kwargs_success:
  "cur < length h \<Longrightarrow> consume_kwargs mp cur kw req self h = (Inr req', self', h') \<Longrightarrow>
     self' = self \<and> h' = h[cur := unsupplied (h ! cur) kw] \<and>
     set (map fst kw) \<subseteq> fst ` set (h ! cur) \<and> distinct (map fst kw) \<and>
     marshal_each mp (supplied_calls (h ! cur) kw) req = Inr req'"
proof (induction kw arbitrary: req h)
  case Nil
  then show ?case by (simp add: unsupplied_def supplied_calls_def)
next
  case (Cons kv kw)
  obtain k v where kv: "kv = (k, v)" by (cases kv)
  let ?d = "h ! cur"
  from Cons.prems kv obtain p where p: "map_of ?d k = Some p"
    by (cases "map_of ?d k") (auto simp: split_beta Let_def)
  from Cons.prems kv p obtain req1 where req1: "mp p v req = Inr req1"
    by (cases "mp p v req") (auto simp: Let_def)
  let ?h1 = "h[cur := AList.delete k ?d]"
  from Cons.prems kv p req1
  have run: "consume_kwargs mp cur kw req1 self ?h1 = (Inr req', self', h')"
    by (simp add: Let_def)
  from Cons.prems(1) have cur1: "cur < length ?h1" by simp
  from Cons.prems(1) have d1: "?h1 ! cur = AList.delete k ?d" by simp
  from Cons.IH [OF cur1 run] d1
  have ih: "self' = self" "h' = ?h1[cur := unsupplied (AList.delete k ?d) kw]"
    "set (map fst kw) \<subseteq> fst ` set (AList.delete k ?d)" "distinct (map fst kw)"
    "marshal_each mp (supplied_calls (AList.delete k ?d) kw) req1 = Inr req'"
    by simp_all
  have knot: "k \<notin> set (map fst kw)"
    using ih(3) by (auto simp: delete_filter)
  have sub: "set (map fst kw) \<subseteq> fst ` set ?d"
    using ih(3) by (auto simp: delete_filter)
  have kin: "k \<in> fst ` set ?d"
    using p by (metis map_of_eq_None_iff option.distinct(1))
  have uns: "unsupplied (AList.delete k ?d) kw = unsupplied ?d (kv # kw)"
    by (auto simp: unsupplied_def delete_filter kv intro: filter_cong)
  have sup: "supplied_calls (AList.delete k ?d) kw = supplied_calls ?d kw"
    unfolding supplied_calls_def using knot
    by (intro map_cong) (force simp: delete_conv')+
  have calls: "marshal_each mp (supplied_calls ?d (kv # kw)) req = Inr req'"
    using ih(5) p req1 unfolding sup by (simp add: supplied_calls_def kv)
  from ih(1) ih(2) uns Cons.prems(1) knot sub kin ih(4) calls show ?case
    by (simp add: kv)
qed

lemma check_remaining_success:
  "check_remaining mp (map snd es) req = Inr req' \<Longrightarrow>
     (\<forall>(k, p) \<in> set es. \<not> required p) \<and>
     marshal_each mp
       (map (\<lambda>(k, p). (p, PNone)) (filter (\<lambda>(k, p). \<not> required p \<and> has_default p) es)) req
       = Inr req'"
proof (induction es arbitrary: req)
  case Nil
  then show ?case by simp
next
  case (Cons e es)
  obtain k p where e: "e = (k, p)" by (cases e)
  from Cons.prems e have nreq: "\<not> required p"
    by (auto split: if_splits)
  show ?case
  proof (cases "has_default p")
    case True
    with Cons.prems e nreq obtain req1 where
      "mp p PNone req = Inr req1" "check_remaining mp (map snd es) req1 = Inr req'"
      by (cases "mp p PNone req") auto
    with Cons.IH [of req1] e nreq True show ?thesis by simp
  next
    case False
    with Cons.prems e nreq have "check_remaining mp (map snd es) req = Inr req'" by simp
    with Cons.IH [of req] e nreq False show ?thesis by simp
  qed
qed

lemma check_remaining_required:
  assumes total: "\<And>p v r. \<exists>r'. mp p v r = Inr r'"
  shows "find required ps = Some q \<Longrightarrow>
     check_remaining mp ps req = Inl (TypeError (name q @ '' is a required parameter''))"
proof (induction ps arbitrary: req)
  case Nil
  then show ?case by simp
next
  case (Cons p ps)
  show ?case
  proof (cases "required p")
    case True
    with Cons.prems show ?thesis by simp
  next
    case False
    with Cons.prems have f: "find required ps = Some q" by simp
    obtain req1 where "mp p PNone req = Inr req1" using total by blast
    with False Cons.IH [OF f] show ?thesis by simp
  qed
qed

lemma keys_delete: "fst ` set (AList.delete k d) = fst ` set d - {k}"
  by (induction d) auto

lemma unsupplied_Cons:
  "unsupplied (AList.delete k d) kw = unsupplied d ((k, v) # kw)"
  by (induction d) (auto simp: unsupplied_def)

lemma consume_kwargs_known:
  assumes total: "\<And>p v r. \<exists>r'. mp p v r = Inr r'"
  shows "cur < length h \<Longrightarrow> distinct (map fst kw) \<Longrightarrow> set (map fst kw) \<subseteq> fst ` set (h ! cur) \<Longrightarrow>
     \<exists>req'. consume_kwargs mp cur kw req self h = (Inr req', self, h[cur := unsupplied (h ! cur) kw])"
proof (induction kw arbitrary: req h)
  case Nil
  then show ?case by (simp add: unsupplied_def)
next
  case (Cons kv kw)
  obtain k v where kv: "kv = (k, v)" by (cases kv)
  let ?d = "h ! cur"
  from Cons.prems(3) kv have "k \<in> fst ` set ?d" by simp
  then have "map_of ?d k \<noteq> None" by (simp add: map_of_eq_None_iff)
  then obtain p where p: "map_of ?d k = Some p" by blast
  obtain req1 where req1: "mp p v req = Inr req1" using total by blast
  let ?h1 = "h[cur := AList.delete k ?d]"
  from Cons.prems(2) kv have knot: "k \<notin> set (map fst kw)" by simp
  from Cons.prems(1) have d1: "?h1 ! cur = AList.delete k ?d" by simp
  from Cons.prems(3) knot have sub: "set (map fst kw) \<subseteq> fst ` set (?h1 ! cur)"
    unfolding d1 keys_delete by auto
  from Cons.prems have c1: "cur < length ?h1" and dist: "distinct (map fst kw)" by simp_all
  from Cons.IH [OF c1 dist sub, of req1] obtain req' where
    run: "consume_kwargs mp cur kw req1 self ?h1 = (Inr req', self, ?h1[cur := unsupplied (?h1 ! cur) kw])"
    by blast
  have "consume_kwargs mp cur (kv # kw) req self h = consume_kwargs mp cur kw req1 self ?h1"
    using p req1 by (simp add: kv Let_def)
  also have "\<dots> = (Inr req', self, h[cur := unsupplied ?d (kv # kw)])"
    unfolding run d1 by (simp add: unsupplied_Cons [of k ?d kw v] kv)
  finally show ?case by blast
qed

lemma consume_kwargs_unknown:
  assumes total: "\<And>p v r. \<exists>r'. mp p v r = Inr r'"
  shows "cur < length h \<Longrightarrow> distinct (map fst kw) \<Longrightarrow>
     find (\<lambda>k. map_of (h ! cur) k = None) (map fst kw) = Some m \<Longrightarrow>
     fst (consume_kwargs mp cur kw req self h) =
       Inl (TypeError (fst (operation_id self) @ '' does not have parameter '' @ m))"
proof (induction kw arbitrary: req h)
  case Nil
  then show ?case by simp
next
  case (Cons kv kw)
  obtain k v where kv: "kv = (k, v)" by (cases kv)
  let ?d = "h ! cur"
  show ?case
  proof (cases "map_of ?d k")
    case None
    with Cons.prems kv show ?thesis by (simp add: split_beta Let_def)
  next
    case (Some p)
    obtain req1 where req1: "mp p v req = Inr req1" using total by blast
    let ?h1 = "h[cur := AList.delete k ?d]"
    from Cons.prems kv have knot: "k \<notin> set (map fst kw)" by simp
    from Cons.prems kv Some
    have f: "find (\<lambda>k. map_of ?d k = None) (map fst kw) = Some m" by simp
    have "find (\<lambda>k'. map_of (?h1 ! cur) k' = None) (map fst kw) =
          find (\<lambda>k. map_of ?d k = None) (map fst kw)"
      using Cons.prems(1) knot by (intro find_cong) (auto simp: delete_conv')
    with f have f1: "find (\<lambda>k'. map_of (?h1 ! cur) k' = None) (map fst kw) = Some m" by simp
    from Cons.prems have "cur < length ?h1" "distinct (map fst kw)" by simp_all
    from Cons.IH [OF this f1, of req1] Some req1 show ?thesis
      by (simp add: kv Let_def)
  qed
qed

lemma marshal_each_append:
  "marshal_each mp (a @ b) req =
     (case marshal_each mp a req of Inl e \<Rightarrow> Inl e | Inr r \<Rightarrow> marshal_each mp b r)"
  by (induction a arbitrary: req) (auto split: sum.splits)

lemma operation_id_snd:
  "snd (operation_id self) = self\<lparr>private_operation_id := Some (fst (operation_id self))\<rparr>"
  by (simp add: operation_id_def Let_def split: option.splits)

lemma construct_params_frame:
  assumes "construct_params mp self req kw h = (r, self', h')"
  shows "length h' = Suc (length h) \<and> take (length h) h' = h \<and>
         (self' = self \<or> self' = snd (operation_id self))"
proof -
  let ?h1 = "h @ [h ! params self]"
  obtain r1 s1 h1' where c: "consume_kwargs mp (length h) kw req self ?h1 = (r1, s1, h1')"
    by (cases "consume_kwargs mp (length h) kw req self ?h1") auto
  from consume_kwargs_frame [OF c]
  have len: "length h1' = Suc (length h)" and same: "\<forall>a. a \<noteq> length h \<longrightarrow> h1' ! a = ?h1 ! a"
    and s1: "s1 = self \<or> s1 = snd (operation_id self)" by simp_all
  from assms c have eq: "h' = h1'" "self' = s1"
    by (auto simp: construct_params_def Let_def split: sum.splits)
  have "take (length h) h1' = h"
    using len same by (intro nth_equalityI) (auto simp: nth_append)
  with len s1 eq show ?thesis by simp
qed

lemma consume_kwargs_cong:
  "cur1 < length h1 \<Longrightarrow> cur2 < length h2 \<Longrightarrow> h1 ! cur1 = h2 ! cur2 \<Longrightarrow>
   fst (operation_id s1) = fst (operation_id s2) \<Longrightarrow>
   fst (consume_kwargs mp cur1 kw req s1 h1) = fst (consume_kwargs mp cur2 kw req s2 h2) \<and>
   snd (snd (consume_kwargs mp cur1 kw req s1 h1)) ! cur1 =
   snd (snd (consume_kwargs mp cur2 kw req s2 h2)) ! cur2"
proof (induction kw arbitrary: req h1 h2)
  case Nil
  then show ?case by simp
next
  case (Cons kv kw)
  obtain k v where kv: "kv = (k, v)" by (cases kv)
  show ?case
  proof (cases "map_of (h1 ! cur1) k")
    case None
    with Cons.prems kv show ?thesis by (simp add: split_beta Let_def)
  next
    case (Some p)
    show ?thesis
    proof (cases "mp p v req")
      case (Inl e)
      with Cons.prems kv Some show ?thesis by (simp add: Let_def)
    next
      case (Inr req1)
      let ?g1 = "h1[cur1 := AList.delete k (h1 ! cur1)]"
      let ?g2 = "h2[cur2 := AList.delete k (h2 ! cur2)]"
      from Cons.prems have "cur1 < length ?g1" "cur2 < length ?g2" "?g1 ! cur1 = ?g2 ! cur2"
        by simp_all
      from Cons.IH [OF this Cons.prems(4), of req1] Cons.prems(3) Some Inr show ?thesis
        by (simp add: kv Let_def)
    qed
  qed
qed

lemma construct_params_cong:
  assumes "params s1 < length h1" "params s2 < length h2" "h1 ! params s1 = h2 ! params s2"
      and "fst (operation_id s1) = fst (operation_id s2)"
  shows "fst (construct_params mp s1 req kw h1) = fst (construct_params mp s2 req kw h2)"
proof -
  let ?g1 = "h1 @ [h1 ! params s1]" and ?g2 = "h2 @ [h2 ! params s2]"
  have "length h1 < length ?g1" "length h2 < length ?g2" "?g1 ! length h1 = ?g2 ! length h2"
    using assms(3) by simp_all
  from consume_kwargs_cong [OF this assms(4), of mp kw req]
  show ?thesis
    by (auto simp: construct_params_def Let_def split: prod.splits sum.splits)
qed

lemma build_get_pet: "build_params Param_init get_pet [[]] = (Inr (), pet_op, pet_heap)"
  by (simp add: build_params_def get_pet_def get_pet_spec_def petstore_def get_default_def
      Param_init_def location_of_def Let_def pet_op_def pet_heap_def pet_params_def
      petId_param_def limit_param_def verbose_param_def)

text \<open>
  Both loops for a marshaler that may raise: the result of each is given by the calls of
  the marshaler that come before the raise.
\<close>

lemma supplied_calls_delete:
  assumes "k \<notin> fst ` set kw"
  shows "supplied_calls (AList.delete k d) kw = supplied_calls d kw"
  unfolding supplied_calls_def using assms
  by (intro map_cong) (force simp: delete_conv')+

lemma known_delete:
  assumes "k \<notin> fst ` set kw" and "kv \<in> set kw"
  shows "known (AList.delete k d) kv = known d kv"
  using assms by (force simp: known_def delete_conv')

lemma consume_kwargs_first_unknown:
  "cur < length h \<Longrightarrow> distinct (map fst kw) \<Longrightarrow> \<exists>kv \<in> set kw. \<not> known (h ! cur) kv \<Longrightarrow>
     fst (consume_kwargs mp cur kw req self h) =
       (case marshal_each mp (supplied_calls (h ! cur) (takeWhile (known (h ! cur)) kw)) req of
          Inl e \<Rightarrow> Inl e
        | Inr r \<Rightarrow>
            Inl (TypeError (fst (operation_id self) @ '' does not have parameter '' @
                            fst (hd (dropWhile (known (h ! cur)) kw)))))"
proof (induction kw arbitrary: req h)
  case Nil
  then show ?case by simp
next
  case (Cons kv kw)
  obtain k v where kv: "kv = (k, v)" by (cases kv)
  let ?d = "h ! cur"
  show ?case
  proof (cases "map_of ?d k")
    case None
    then show ?thesis
      by (simp add: kv known_def supplied_calls_def split_beta Let_def cong: sum.case_cong)
  next
    case (Some p)
    let ?h1 = "h[cur := AList.delete k ?d]"
    from Cons.prems(2) kv have knot: "k \<notin> fst ` set kw" by simp
    from Cons.prems(1) have d1: "?h1 ! cur = AList.delete k ?d" and c1: "cur < length ?h1"
      by simp_all
    from Cons.prems(2) have dist: "distinct (map fst kw)" by simp
    have same: "\<And>x. x \<in> set kw \<Longrightarrow> known (AList.delete k ?d) x = known ?d x"
      using knot by (rule known_delete)
    have tk: "takeWhile (known (AList.delete k ?d)) kw = takeWhile (known ?d) kw"
      using same by (intro takeWhile_cong) simp_all
    have dk: "dropWhile (known (AList.delete k ?d)) kw = dropWhile (known ?d) kw"
      using same by (intro dropWhile_cong) simp_all
    from Cons.prems(3) Some kv have "\<exists>x \<in> set kw. \<not> known ?d x"
      by (auto simp: known_def)
    with same have ex: "\<exists>x \<in> set kw. \<not> known (?h1 ! cur) x"
      unfolding d1 by blast
    have knot': "k \<notin> fst ` set (takeWhile (known ?d) kw)"
      using knot by (auto dest: set_takeWhileD)
    have sc: "supplied_calls (AList.delete k ?d) (takeWhile (known ?d) kw) =
              supplied_calls ?d (takeWhile (known ?d) kw)"
      using knot' by (rule supplied_calls_delete)
    have kn: "known ?d kv" using Some by (simp add: known_def kv)
    show ?thesis
    proof (cases "mp p v req")
      case (Inl e)
      with Some kn show ?thesis
        by (simp add: kv supplied_calls_def Let_def cong: sum.case_cong)
    next
      case (Inr req1)
      from Cons.IH [OF c1 dist ex, of req1]
      have "fst (consume_kwargs mp cur kw req1 self ?h1) =
         (case marshal_each mp (supplied_calls ?d (takeWhile (known ?d) kw)) req1 of
            Inl e \<Rightarrow> Inl e
          | Inr r \<Rightarrow>
              Inl (TypeError (fst (operation_id self) @ '' does not have parameter '' @
                              fst (hd (dropWhile (known ?d) kw)))))"
        unfolding d1 tk dk sc .
      with Some Inr kn show ?thesis
        by (simp add: kv supplied_calls_def Let_def cong: sum.case_cong)
    qed
  qed
qed

lemma consume_kwargs_all_known:
  "cur < length h \<Longrightarrow> distinct (map fst kw) \<Longrightarrow> fst ` set kw \<subseteq> fst ` set (h ! cur) \<Longrightarrow>
     fst (consume_kwargs mp cur kw req self h) = marshal_each mp (supplied_calls (h ! cur) kw) req"
proof (induction kw arbitrary: req h)
  case Nil
  then show ?case by (simp add: supplied_calls_def)
next
  case (Cons kv kw)
  obtain k v where kv: "kv = (k, v)" by (cases kv)
  let ?d = "h ! cur"
  from Cons.prems(3) kv have "k \<in> fst ` set ?d" by simp
  then have "map_of ?d k \<noteq> None" by (simp add: map_of_eq_None_iff)
  then obtain p where p: "map_of ?d k = Some p" by blast
  let ?h1 = "h[cur := AList.delete k ?d]"
  from Cons.prems(2) kv have knot: "k \<notin> fst ` set kw" by simp
  from Cons.prems(1) have d1: "?h1 ! cur = AList.delete k ?d" and c1: "cur < length ?h1"
    by simp_all
  from Cons.prems(2) have dist: "distinct (map fst kw)" by simp
  from Cons.prems(3) knot have sub: "fst ` set kw \<subseteq> fst ` set (?h1 ! cur)"
    unfolding d1 keys_delete by auto
  have sc: "supplied_calls (AList.delete k ?d) kw = supplied_calls ?d kw"
    using knot by (rule supplied_calls_delete)
  show ?case
  proof (cases "mp p v req")
    case (Inl e)
    with p show ?thesis by (simp add: kv supplied_calls_def Let_def)
  next
    case (Inr req1)
    from Cons.IH [OF c1 dist sub, of req1]
    have "fst (consume_kwargs mp cur kw req1 self ?h1) = marshal_each mp (supplied_calls ?d kw) req1"
      unfolding d1 sc .
    with p Inr show ?thesis by (simp add: kv supplied_calls_def Let_def)
  qed
qed

lemma check_remaining_first_required:
  "\<exists>p \<in> set ps. required p \<Longrightarrow>
     check_remaining mp ps req =
       (case marshal_each mp
               (map (\<lambda>p. (p, PNone))
                  (filter has_default (takeWhile (\<lambda>p. \<not> required p) ps))) req of
          Inl e \<Rightarrow> Inl e
        | Inr r \<Rightarrow>
            Inl (TypeError (name (hd (dropWhile (\<lambda>p. \<not> required p) ps)) @
                            '' is a required parameter'')))"
proof (induction ps arbitrary: req)
  case Nil
  then show ?case by simp
next
  case (Cons p ps)
  show ?case
  proof (cases "required p")
    case True
    then show ?thesis by (simp cong: sum.case_cong)
  next
    case False
    with Cons.prems have ex: "\<exists>p \<in> set ps. required p" by auto
    show ?thesis
    proof (cases "has_default p")
      case True
      with False Cons.IH [OF ex] show ?thesis
        by (cases "mp p PNone req") (simp_all cong: sum.case_cong)
    next
      case nd: False
      with False Cons.IH [OF ex, of req] show ?thesis by (simp cong: sum.case_cong)
    qed
  qed
qed

subsection \<open>An argument that the operation does not have\<close>

lemma construct_params_unknown_find:
  assumes total: "\<forall>p v r. \<exists>r'. mp p v r = Inr r'"
      and valid: "params self < length h"
      and dist: "distinct (map fst kw)"
      and f: "find (\<lambda>k. map_of (h ! params self) k = None) (map fst kw) = Some m"
  shows "fst (construct_params mp self req kw h) =
           Inl (TypeError (fst (operation_id self) @ '' does not have parameter '' @ m))"
proof -
  let ?h1 = "h @ [h ! params self]"
  have c: "length h < length ?h1" by simp
  have d: "?h1 ! length h = h ! params self" by simp
  from f have f1: "find (\<lambda>k. map_of (?h1 ! length h) k = None) (map fst kw) = Some m"
    unfolding d .
  from total have t: "\<And>p v r. \<exists>r'. mp p v r = Inr r'" by blast
  from consume_kwargs_unknown [of mp "length h" ?h1 kw m req self, OF t c dist f1]
  show ?thesis
    by (auto simp: construct_params_def Let_def split: prod.splits sum.splits)
qed

lemma construct_request_plain:
  assumes "''_request_options'' \<notin> fst ` set kw"
  shows "construct_request mp self kw h =
           construct_params mp self
             (PDict [(''method'', PStr (http_method self)),
                     (''url'', PStr (api_url (swagger_spec self) @ path_name self)),
                     (''params'', PDict []), (''headers'', PDict [])]) kw h"
proof -
  from assms have "map_of kw ''_request_options'' = None"
    by (simp add: map_of_eq_None_iff)
  with assms show ?thesis
    by (simp add: construct_request_def get_default_def Let_def)
qed

lemma construct_request_options:
  assumes "''_request_options'' \<notin> fst ` set kw"
  shows "construct_request mp self ((''_request_options'', PDict ro) # kw) h =
           construct_params mp self
             (PDict [(''method'', PStr (http_method self)),
                     (''url'', PStr (api_url (swagger_spec self) @ path_name self)),
                     (''params'', PDict []),
                     (''headers'', get_default (map_of ro ''headers'') (PDict []))]) kw h"
  using assms by (simp add: construct_request_def get_default_def Let_def)

lemma call_Operation_error:
  assumes "fst (construct_request mp (snd (operation_id self)) kw h) = Inl e"
  shows "fst (call_Operation mp self kw h) = Inl e"
  using assms by (auto simp: call_Operation_def split_beta split: prod.splits sum.splits)

lemma construct_params_raises:
  "fst (consume_kwargs mp (length h) kw req self (h @ [h ! params self])) = Inl e \<Longrightarrow>
     fst (construct_params mp self req kw h) = Inl e"
  by (cases "consume_kwargs mp (length h) kw req self (h @ [h ! params self])")
     (simp add: construct_params_def Let_def)

lemma call_Operation_returns:
  "fst (call_Operation mp self kw h) = Inr f \<Longrightarrow>
     \<exists>r. fst (construct_request mp (snd (operation_id self)) kw h) = Inr r"
  by (auto simp: call_Operation_def split_beta split: prod.splits sum.splits)

lemma construct_params_unknown_never_returns:
  assumes "params self < length h" and "n \<in> fst ` set kw" and "n \<notin> fst ` set (h ! params self)"
  shows "fst (construct_params marshal_param self request kw h) \<noteq> Inr request'"
proof
  assume r: "fst (construct_params marshal_param self request kw h) = Inr request'"
  let ?h1 = "h @ [h ! params self]"
  obtain r1 s1 h1' where c: "consume_kwargs marshal_param (length h) kw request self ?h1 = (r1, s1, h1')"
    by (cases "consume_kwargs marshal_param (length h) kw request self ?h1") auto
  with r obtain req1 where r1: "r1 = Inr req1"
    by (cases r1) (auto simp: construct_params_def Let_def)
  have cur: "length h < length ?h1" by simp
  from consume_kwargs_success [OF cur c [unfolded r1]]
  have "fst ` set kw \<subseteq> fst ` set (h ! params self)" by simp
  with assms(2,3) show False by blast
qed

text \<open>
  Claim C3, as stated: when the arguments hold a name that the parameter set does not
  have, the call fails with the \<^verbatim>\<open>TypeError\<close> that says so. The first loop marshals each
  argument as it meets it, so an exception of the marshaler for an argument met before
  the unknown name comes first: with \<^verbatim>\<open>petId\<close> given as a string to a marshaler that
  checks the declared type, the call fails with the marshaler's error.
\<close>

theorem construct_params_unknown_name_counterexample:
  "fst (construct_params marshal_typed pet_op pet_request
          [(''petId'', PStr ''x''), (''bogus'', PInt 1)] pet_heap) =
     Inl (Raised ''ValidationError'' ''petId'')"
  by (simp add: construct_params_def pet_op_def pet_heap_def pet_params_def petId_param_def
      marshal_typed_def Let_def)

text \<open>
  Claim C3, amended: when the arguments hold a name that is not a key of the operation's
  parameter set, \<^verbatim>\<open>construct_params\<close> fails, and \<^verbatim>\<open>Operation.__call__\<close> makes no
  \<^verbatim>\<open>HTTPFuture\<close>, with or without request options, so the transport is not reached. The
  error is the \<^verbatim>\<open>TypeError\<close> that says the operation has no such parameter, for the first
  such name in the iteration order of the arguments, unless the marshaler raises for an
  argument that comes before that name: then it is the marshaler's exception. The
  arguments are a dict (no name twice) and \<^verbatim>\<open>self.params\<close> is an allocated dict.
\<close>

theorem construct_params_unknown_name:
  assumes "params self < length h"
      and "distinct (map fst kw)"
      and "n \<in> fst ` set kw"
      and "n \<notin> fst ` set (h ! params self)"
  shows "first_unknown (h ! params self) kw \<in> fst ` set kw \<and>
         first_unknown (h ! params self) kw \<notin> fst ` set (h ! params self) \<and>
         fst (construct_params marshal_param self request kw h) =
           (case marshal_each marshal_param (calls_before_unknown (h ! params self) kw) request of
              Inl e \<Rightarrow> Inl e
            | Inr r \<Rightarrow>
                Inl (TypeError (fst (operation_id self) @ '' does not have parameter '' @
                                first_unknown (h ! params self) kw))) \<and>
         (''_request_options'' \<notin> fst ` set kw \<longrightarrow>
            (\<forall>f. fst (call_Operation marshal_param self kw h) \<noteq> Inr f) \<and>
            (\<forall>ro f. fst (call_Operation marshal_param self
                            ((''_request_options'', PDict ro) # kw) h) \<noteq> Inr f))"
proof -
  let ?d = "h ! params self"
  let ?h1 = "h @ [?d]"
  from assms(3,4) have ex: "\<exists>kv \<in> set kw. \<not> known ?d kv"
    by (auto simp: known_def map_of_eq_None_iff)
  then have ne: "dropWhile (known ?d) kw \<noteq> []"
    by (simp add: dropWhile_eq_Nil_conv)
  then have nk: "\<not> known ?d (hd (dropWhile (known ?d) kw))" by (rule hd_dropWhile)
  from ne have "hd (dropWhile (known ?d) kw) \<in> set (dropWhile (known ?d) kw)" by simp
  then have "hd (dropWhile (known ?d) kw) \<in> set kw" by (rule set_dropWhileD)
  then have m1: "first_unknown ?d kw \<in> fst ` set kw" by (simp add: first_unknown_def)
  from nk have m2: "first_unknown ?d kw \<notin> fst ` set ?d"
    by (simp add: known_def first_unknown_def map_of_eq_None_iff)
  have cur: "length h < length ?h1" by simp
  have d: "?h1 ! length h = ?d" by simp
  from ex have ex1: "\<exists>kv \<in> set kw. \<not> known (?h1 ! length h) kv" unfolding d .
  let ?rhs = "case marshal_each marshal_param (calls_before_unknown ?d kw) request of
              Inl e \<Rightarrow> Inl e
            | Inr r \<Rightarrow>
                Inl (TypeError (fst (operation_id self) @ '' does not have parameter '' @
                                first_unknown ?d kw))"
  from consume_kwargs_first_unknown [OF cur assms(2) ex1, of marshal_param request self]
  have c: "fst (consume_kwargs marshal_param (length h) kw request self ?h1) = ?rhs"
    unfolding d first_unknown_def calls_before_unknown_def .
  obtain e where e: "fst (consume_kwargs marshal_param (length h) kw request self ?h1) = Inl e"
    unfolding c
    by (cases "marshal_each marshal_param (calls_before_unknown ?d kw) request") simp_all
  from construct_params_raises [OF e] e c
  have exact: "fst (construct_params marshal_param self request kw h) = ?rhs" by simp
  let ?s1 = "snd (operation_id self)"
  have v1: "params ?s1 < length h" using assms(1) by simp
  have n1: "n \<notin> fst ` set (h ! params ?s1)" using assms(4) by simp
  have call: "fst (call_Operation marshal_param self kw h) \<noteq> Inr f"
    if o: "''_request_options'' \<notin> fst ` set kw" for f
  proof
    assume "fst (call_Operation marshal_param self kw h) = Inr f"
    then obtain r where "fst (construct_request marshal_param ?s1 kw h) = Inr r"
      by (auto dest: call_Operation_returns)
    with construct_params_unknown_never_returns [OF v1 assms(3) n1]
    show False by (simp add: construct_request_plain [OF o])
  qed
  have callo: "fst (call_Operation marshal_param self ((''_request_options'', PDict ro) # kw) h) \<noteq> Inr f"
    if o: "''_request_options'' \<notin> fst ` set kw" for ro f
  proof
    assume "fst (call_Operation marshal_param self ((''_request_options'', PDict ro) # kw) h) = Inr f"
    then obtain r where
      "fst (construct_request marshal_param ?s1 ((''_request_options'', PDict ro) # kw) h) = Inr r"
      by (auto dest: call_Operation_returns)
    with construct_params_unknown_never_returns [OF v1 assms(3) n1]
    show False by (simp add: construct_request_options [OF o])
  qed
  from m1 m2 exact call callo show ?thesis by blast
qed

lemma marshal_query_total: "\<forall>p v r. \<exists>r'. marshal_query p v r = Inr r'"
  by (auto simp: marshal_query_def Let_def split: pyval.splits)

theorem construct_params_unknown_name_witness:
  "fst (construct_params marshal_query pet_op pet_request
          [(''petId'', PInt 7), (''bogus'', PInt 1)] pet_heap) =
     Inl (TypeError ''getPetById does not have parameter bogus'') \<and>
   fst (construct_params marshal_typed pet_op pet_request
          [(''limit'', PStr ''five''), (''bogus'', PInt 1)] pet_heap) =
     Inl (Raised ''ValidationError'' ''limit'')"
proof -
  have 1: "params pet_op < length pet_heap" by (simp add: pet_op_def pet_heap_def)
  have d: "pet_heap ! params pet_op = pet_params" by (simp add: pet_op_def pet_heap_def)
  have 2: "distinct (map fst [(''petId'', PInt 7), (''bogus'', PInt 1)])"
          "distinct (map fst [(''limit'', PStr ''five''), (''bogus'', PInt 1)])" by simp_all
  have 3: "''bogus'' \<in> fst ` set [(''petId'', PInt 7), (''bogus'', PInt 1)]"
          "''bogus'' \<in> fst ` set [(''limit'', PStr ''five''), (''bogus'', PInt 1)]" by simp_all
  have 4: "''bogus'' \<notin> fst ` set (pet_heap ! params pet_op)"
    by (simp add: d pet_params_def)
  have i: "fst (operation_id pet_op) = ''getPetById''"
    by (simp add: pet_op_def get_pet_def get_pet_spec_def operation_id_def)
  from construct_params_unknown_name [OF 1 2(1) 3(1) 4, of marshal_query pet_request]
       construct_params_unknown_name [OF 1 2(2) 3(2) 4, of marshal_typed pet_request]
  show ?thesis
    unfolding d i
    by (simp add: first_unknown_def calls_before_unknown_def known_def supplied_calls_def
        pet_params_def petId_param_def limit_param_def pet_request_def marshal_query_def
        marshal_typed_def get_default_def Let_def)
qed

subsection \<open>A required parameter that is left out\<close>

text \<open>
  Claim C4, as stated: whenever a required parameter is not among the arguments, the call
  fails with a \<^verbatim>\<open>TypeError\<close> that names that parameter. The names of the arguments are
  checked first: with \<^verbatim>\<open>petId\<close> required and missing and an argument \<^verbatim>\<open>bogus\<close> that the
  operation does not have, the error names \<^verbatim>\<open>bogus\<close>, and \<^verbatim>\<open>petId\<close> is not reported.
\<close>

theorem construct_params_missing_required_counterexample:
  "fst (construct_params marshal_query pet_op pet_request [(''bogus'', PInt 1)] pet_heap) =
     Inl (TypeError ''getPetById does not have parameter bogus'')"
  by (simp add: construct_params_def pet_op_def pet_heap_def pet_params_def get_pet_def
      get_pet_spec_def operation_id_def Let_def)

text \<open>
  Claim C4, amended: when every argument names a parameter of the operation and some
  required parameter is not among the arguments, \<^verbatim>\<open>construct_params\<close> fails. The error
  is the \<^verbatim>\<open>TypeError\<close> that names the first required parameter that was not supplied, in
  the iteration order of the parameter set, unless the marshaler raises before: for a
  supplied argument, or for the default of an optional parameter that was not supplied
  and comes before that required one. Then it is the marshaler's exception. The
  arguments are a dict (no name twice) and \<^verbatim>\<open>self.params\<close> is an allocated dict.
\<close>

theorem construct_params_missing_required:
  assumes "params self < length h"
      and "distinct (map fst kw)"
      and "fst ` set kw \<subseteq> fst ` set (h ! params self)"
      and "(k, q) \<in> set (h ! params self)"
      and "required q"
      and "k \<notin> fst ` set kw"
  shows "required (first_required (h ! params self) kw) \<and>
         first_required (h ! params self) kw \<in> snd ` set (unsupplied (h ! params self) kw) \<and>
         fst (construct_params marshal_param self request kw h) =
           (case marshal_each marshal_param (calls_before_required (h ! params self) kw) request of
              Inl e \<Rightarrow> Inl e
            | Inr r \<Rightarrow>
                Inl (TypeError (name (first_required (h ! params self) kw) @
                                '' is a required parameter'')))"
proof -
  let ?d = "h ! params self"
  let ?h1 = "h @ [?d]"
  let ?rest = "map snd (unsupplied ?d kw)"
  let ?N = "\<lambda>p. \<not> required p"
  let ?dfl = "map (\<lambda>p. (p, PNone)) (filter has_default (takeWhile ?N ?rest))"
  let ?err = "Inl (TypeError (name (first_required ?d kw) @ '' is a required parameter'')) :: error + pyval"
  from assms(4,6) have "(k, q) \<in> set (unsupplied ?d kw)"
    by (auto simp: unsupplied_def)
  then have "q \<in> set ?rest" by force
  with assms(5) have ex: "\<exists>p \<in> set ?rest. required p" by blast
  then have ne: "dropWhile ?N ?rest \<noteq> []" by (simp add: dropWhile_eq_Nil_conv)
  then have "\<not> ?N (hd (dropWhile ?N ?rest))" by (rule hd_dropWhile)
  then have p1: "required (first_required ?d kw)" by (simp add: first_required_def)
  from ne have "hd (dropWhile ?N ?rest) \<in> set (dropWhile ?N ?rest)" by simp
  then have "hd (dropWhile ?N ?rest) \<in> set ?rest" by (rule set_dropWhileD)
  then have p2: "first_required ?d kw \<in> snd ` set (unsupplied ?d kw)"
    by (simp add: first_required_def)
  have cur: "length h < length ?h1" by simp
  have d: "?h1 ! length h = ?d" by simp
  from assms(3) have sub: "fst ` set kw \<subseteq> fst ` set (?h1 ! length h)" unfolding d .
  from consume_kwargs_all_known [OF cur assms(2) sub, of marshal_param request self]
  have c: "fst (consume_kwargs marshal_param (length h) kw request self ?h1) =
             marshal_each marshal_param (supplied_calls ?d kw) request"
    unfolding d .
  have chk: "check_remaining marshal_param ?rest r =
               (case marshal_each marshal_param ?dfl r of Inl e \<Rightarrow> Inl e | Inr r' \<Rightarrow> ?err)" for r
    unfolding first_required_def by (rule check_remaining_first_required [OF ex])
  have exact: "fst (construct_params marshal_param self request kw h) =
           (case marshal_each marshal_param (calls_before_required ?d kw) request of
              Inl e \<Rightarrow> Inl e
            | Inr r \<Rightarrow> ?err)"
  proof (cases "marshal_each marshal_param (supplied_calls ?d kw) request")
    case (Inl e)
    with c have "fst (consume_kwargs marshal_param (length h) kw request self ?h1) = Inl e"
      by simp
    from construct_params_raises [OF this] Inl show ?thesis
      by (simp add: calls_before_required_def marshal_each_append)
  next
    case (Inr req1)
    obtain r1 s1 h1' where
      run: "consume_kwargs marshal_param (length h) kw request self ?h1 = (r1, s1, h1')"
      by (cases "consume_kwargs marshal_param (length h) kw request self ?h1") auto
    with c Inr have r1: "r1 = Inr req1" by simp
    from consume_kwargs_success [OF cur run [unfolded r1]]
    have h1': "h1' = ?h1[length h := unsupplied ?d kw]" unfolding d by simp
    from run r1 h1'
    have "fst (construct_params marshal_param self request kw h) =
            check_remaining marshal_param ?rest req1"
      by (simp add: construct_params_def Let_def)
    with Inr chk [of req1] show ?thesis
      by (simp add: calls_before_required_def marshal_each_append)
  qed
  from p1 p2 exact show ?thesis by blast
qed

theorem construct_params_missing_required_witness:
  "fst (construct_params marshal_query pet_op pet_request [(''limit'', PInt 5)] pet_heap) =
     Inl (TypeError ''petId is a required parameter'') \<and>
   fst (construct_params marshal_typed pet_op pet_request [(''limit'', PStr ''five'')] pet_heap) =
     Inl (Raised ''ValidationError'' ''limit'')"
proof -
  have 1: "params pet_op < length pet_heap" by (simp add: pet_op_def pet_heap_def)
  have d: "pet_heap ! params pet_op = pet_params" by (simp add: pet_op_def pet_heap_def)
  have 2: "distinct (map fst [(''limit'', PInt 5)])"
          "distinct (map fst [(''limit'', PStr ''five'')])" by simp_all
  have 3: "fst ` set [(''limit'', PInt 5)] \<subseteq> fst ` set (pet_heap ! params pet_op)"
          "fst ` set [(''limit'', PStr ''five'')] \<subseteq> fst ` set (pet_heap ! params pet_op)"
    by (simp_all add: d pet_params_def)
  have 4: "(''petId'', petId_param) \<in> set (pet_heap ! params pet_op)"
    by (simp add: d pet_params_def)
  have 5: "required petId_param" by (simp add: petId_param_def)
  have 6: "''petId'' \<notin> fst ` set [(''limit'', PInt 5)]"
          "''petId'' \<notin> fst ` set [(''limit'', PStr ''five'')]" by simp_all
  from construct_params_missing_required [OF 1 2(1) 3(1) 4 5 6(1), of marshal_query pet_request]
       construct_params_missing_required [OF 1 2(2) 3(2) 4 5 6(2), of marshal_typed pet_request]
  show ?thesis
    unfolding d
    by (simp add: first_required_def calls_before_required_def unsupplied_def supplied_calls_def
        pet_params_def petId_param_def limit_param_def verbose_param_def pet_request_def
        marshal_query_def marshal_typed_def get_default_def has_default_def Let_def)
qed

subsection \<open>Defaults\<close>

lemma keyed_by_name_entry: "keyed_by_name d \<Longrightarrow> (k, p) \<in> set d \<Longrightarrow> name p = k"
  by (auto simp: keyed_by_name_def list_all_iff)

lemma keyed_by_name_distinct_snd:
  assumes "keyed_by_name d"
  shows "distinct (map snd d)"
proof -
  have "map fst d = map name (map snd d)"
    using keyed_by_name_entry [OF assms] by (auto intro: map_cong)
  with assms have "distinct (map name (map snd d))"
    unfolding keyed_by_name_def by metis
  then show ?thesis using distinct_map [of name "map snd d"] by blast
qed

lemma distinct_count_list: "distinct xs \<Longrightarrow> count_list xs x = (if x \<in> set xs then 1 else 0)"
  by (induction xs) auto

lemma supplied_calls_other:
  assumes "keyed_by_name d" and "fst ` set kw \<subseteq> fst ` set d"
      and "(k, p) \<in> set d" and "k \<notin> fst ` set kw"
  shows "p \<notin> set (map fst (supplied_calls d kw))"
proof
  assume "p \<in> set (map fst (supplied_calls d kw))"
  then obtain k' v where kv: "(k', v) \<in> set kw" and p: "p = the (map_of d k')"
    by (auto simp: supplied_calls_def)
  from kv assms(2) have "k' \<in> fst ` set d" by force
  then have "map_of d k' \<noteq> None" by (simp add: map_of_eq_None_iff)
  then obtain p' where p': "map_of d k' = Some p'" by blast
  then have "(k', p') \<in> set d" by (rule map_of_SomeD)
  with assms(1) have "name p' = k'" by (rule keyed_by_name_entry)
  moreover from p p' have "p' = p" by simp
  moreover from assms(1,3) have "name p = k" by (rule keyed_by_name_entry)
  ultimately have "k' = k" by simp
  with kv assms(4) show False by force
qed

lemma default_calls_count:
  assumes "keyed_by_name d" and "(k, p) \<in> set d" and "k \<notin> fst ` set kw" and "\<not> required p"
  shows "count_list (map fst (default_calls d kw)) p = (if has_default p then 1 else 0)"
proof -
  let ?es = "filter (\<lambda>(k, p). \<not> required p \<and> has_default p) (unsupplied d kw)"
  have m: "map fst (default_calls d kw) = map snd ?es"
    by (simp add: default_calls_def split_beta comp_def)
  have "distinct (map snd d)" using assms(1) by (rule keyed_by_name_distinct_snd)
  then have "distinct (map snd (unsupplied d kw))"
    unfolding unsupplied_def by (rule distinct_map_filter)
  then have dist: "distinct (map snd ?es)" by (rule distinct_map_filter)
  have mem: "p \<in> set (map snd ?es) \<longleftrightarrow> has_default p"
  proof
    assume "p \<in> set (map snd ?es)"
    then show "has_default p" by auto
  next
    assume "has_default p"
    with assms have "(k, p) \<in> set ?es" by (auto simp: unsupplied_def)
    then show "p \<in> set (map snd ?es)" by force
  qed
  from dist have "count_list (map snd ?es) p = (if p \<in> set (map snd ?es) then 1 else 0)"
    by (rule distinct_count_list)
  with mem m show ?thesis by simp
qed

text \<open>
  Claim C5, as stated: in every call of \<^verbatim>\<open>construct_params\<close>, each parameter that is not
  supplied, not required and has a default is marshaled into the request once, with
  \<^verbatim>\<open>None\<close>. A call that raises stops before: with the argument \<^verbatim>\<open>bogus\<close>, which the
  operation does not have, the first loop raises and \<^verbatim>\<open>limit\<close> (not supplied, optional,
  default 10) is never marshaled. Here the marshaler raises whenever it is called, and
  the error of the call is still the \<^verbatim>\<open>TypeError\<close> of the first loop.
\<close>

theorem construct_params_defaults_counterexample:
  "fst (construct_params (\<lambda>p v r. Inl (Raised ''marshal_param'' (name p)))
          pet_op pet_request [(''bogus'', PInt 1)] pet_heap) =
     Inl (TypeError ''getPetById does not have parameter bogus'')"
  by (simp add: construct_params_def pet_op_def pet_heap_def pet_params_def get_pet_def
      get_pet_spec_def operation_id_def Let_def)

text \<open>
  Claim C5, amended: for a call of \<^verbatim>\<open>construct_params\<close> that returns, the request is the one that
  the calls of the marshaler make in this order: the supplied arguments with their
  values, then each parameter that is not supplied, not required and has a default, with
  the value \<^verbatim>\<open>None\<close>. A parameter that is not supplied is not required; it is marshaled
  once, with \<^verbatim>\<open>None\<close>, when it has a default and not at all when it has none.
  \<^verbatim>\<open>self.params\<close> is an allocated dict keyed by the parameters' names.
\<close>

theorem construct_params_defaults:
  assumes "params self < length h"
      and "keyed_by_name (h ! params self)"
      and "construct_params marshal_param self request kw h = (Inr request', self', h')"
  shows "marshal_each marshal_param
           (supplied_calls (h ! params self) kw @ default_calls (h ! params self) kw) request =
           Inr request' \<and>
         (\<forall>(k, p) \<in> set (h ! params self). k \<notin> fst ` set kw \<longrightarrow>
            \<not> required p \<and>
            count_list (map fst (supplied_calls (h ! params self) kw @
                                 default_calls (h ! params self) kw)) p =
              (if has_default p then 1 else 0) \<and>
            (has_default p \<longrightarrow> (p, PNone) \<in> set (default_calls (h ! params self) kw)))"
proof -
  let ?d = "h ! params self"
  let ?h1 = "h @ [?d]"
  obtain r1 s1 h1' where c: "consume_kwargs marshal_param (length h) kw request self ?h1 = (r1, s1, h1')"
    by (cases "consume_kwargs marshal_param (length h) kw request self ?h1") auto
  with assms(3) obtain req1 where r1: "r1 = Inr req1"
    by (cases r1) (auto simp: construct_params_def Let_def)
  have cur: "length h < length ?h1" by simp
  have d: "?h1 ! length h = ?d" by simp
  from consume_kwargs_success [OF cur c [unfolded r1]]
  have h1': "h1' = ?h1[length h := unsupplied ?d kw]"
    and sub: "fst ` set kw \<subseteq> fst ` set ?d"
    and sup: "marshal_each marshal_param (supplied_calls ?d kw) request = Inr req1"
    unfolding d by simp_all
  from assms(3) c r1 h1'
  have chk: "check_remaining marshal_param (map snd (unsupplied ?d kw)) req1 = Inr request'"
    by (simp add: construct_params_def Let_def)
  from check_remaining_success [OF chk]
  have nreq: "\<forall>(k, p) \<in> set (unsupplied ?d kw). \<not> required p"
    and dfl: "marshal_each marshal_param (default_calls ?d kw) req1 = Inr request'"
    by (simp_all add: default_calls_def)
  have run: "marshal_each marshal_param (supplied_calls ?d kw @ default_calls ?d kw) request =
               Inr request'"
    by (simp add: marshal_each_append sup dfl)
  have each: "\<not> required p \<and>
      count_list (map fst (supplied_calls ?d kw @ default_calls ?d kw)) p =
        (if has_default p then 1 else 0) \<and>
      (has_default p \<longrightarrow> (p, PNone) \<in> set (default_calls ?d kw))"
    if e: "(k, p) \<in> set ?d" and k: "k \<notin> fst ` set kw" for k p
  proof -
    from e k have u: "(k, p) \<in> set (unsupplied ?d kw)" by (auto simp: unsupplied_def)
    with nreq have n: "\<not> required p" by auto
    from supplied_calls_other [OF assms(2) sub e k]
    have "count_list (map fst (supplied_calls ?d kw)) p = 0" by (simp add: count_list_0_iff)
    with default_calls_count [OF assms(2) e k n]
    have cnt: "count_list (map fst (supplied_calls ?d kw @ default_calls ?d kw)) p =
        (if has_default p then 1 else 0)" by simp
    have "(p, PNone) \<in> set (default_calls ?d kw)" if "has_default p"
      using u n that by (force simp: default_calls_def)
    with n cnt show ?thesis by blast
  qed
  from run each show ?thesis by blast
qed

theorem construct_params_defaults_witness:
  "marshal_each marshal_query [(petId_param, PInt 7), (limit_param, PNone)] pet_request =
     Inr (PDict [(''method'', PStr ''get''),
                 (''url'', PStr ''http://petstore.test/v2/pet/{petId}''),
                 (''params'', PDict [(''petId'', PInt 7), (''limit'', PInt 10)]),
                 (''headers'', PDict [])]) \<and>
   count_list [petId_param, limit_param] limit_param = 1 \<and>
   count_list [petId_param, limit_param] verbose_param = 0"
proof -
  let ?kw = "[(''petId'', PInt 7)]"
  let ?req = "PDict [(''method'', PStr ''get''),
                 (''url'', PStr ''http://petstore.test/v2/pet/{petId}''),
                 (''params'', PDict [(''petId'', PInt 7), (''limit'', PInt 10)]),
                 (''headers'', PDict [])]"
  have 1: "params pet_op < length pet_heap" by (simp add: pet_op_def pet_heap_def)
  have d: "pet_heap ! params pet_op = pet_params" by (simp add: pet_op_def pet_heap_def)
  have 2: "keyed_by_name (pet_heap ! params pet_op)"
    unfolding d
    by (simp add: keyed_by_name_def pet_params_def petId_param_def limit_param_def
        verbose_param_def)
  have 3: "construct_params marshal_query pet_op pet_request ?kw pet_heap =
             (Inr ?req, pet_op, pet_heap @ [[(''limit'', limit_param), (''verbose'', verbose_param)]])"
    by (simp add: construct_params_def pet_op_def pet_heap_def pet_params_def pet_request_def
        petId_param_def limit_param_def verbose_param_def marshal_query_def has_default_def
        get_default_def Let_def)
  have s: "supplied_calls pet_params ?kw = [(petId_param, PInt 7)]"
    by (simp add: supplied_calls_def pet_params_def)
  have f: "default_calls pet_params ?kw = [(limit_param, PNone)]"
    by (simp add: default_calls_def unsupplied_def pet_params_def petId_param_def
        limit_param_def verbose_param_def has_default_def)
  have l: "(''limit'', limit_param) \<in> set pet_params" "''limit'' \<notin> fst ` set ?kw"
      "has_default limit_param"
    by (simp_all add: pet_params_def limit_param_def has_default_def)
  have v: "(''verbose'', verbose_param) \<in> set pet_params" "''verbose'' \<notin> fst ` set ?kw"
      "\<not> has_default verbose_param"
    by (simp_all add: pet_params_def verbose_param_def has_default_def)
  from construct_params_defaults [OF 1 2 3] l v show ?thesis
    unfolding d s f by fastforce
qed

subsection \<open>The parameter set of the operation is not consumed\<close>

lemma construct_request_frame:
  assumes "construct_request mp self kw h = (r, self', h')"
  shows "length h \<le> length h' \<and> take (length h) h' = h \<and>
         (self' = self \<or> self' = snd (operation_id self))"
proof (cases "get_default (map_of kw ''_request_options'') (PDict [])")
  case (PDict ro)
  with assms obtain req where
    "construct_params mp self req (AList.delete ''_request_options'' kw) h = (r, self', h')"
    by (simp add: construct_request_def Let_def)
  from construct_params_frame [OF this] show ?thesis by simp
qed (use assms in \<open>simp_all add: construct_request_def Let_def\<close>)

lemma construct_request_cong:
  assumes "params s1 < length h1" "params s2 < length h2" "h1 ! params s1 = h2 ! params s2"
      and "fst (operation_id s1) = fst (operation_id s2)"
      and "http_method s1 = http_method s2" "path_name s1 = path_name s2"
      and "swagger_spec s1 = swagger_spec s2"
  shows "fst (construct_request mp s1 kw h1) = fst (construct_request mp s2 kw h2)"
proof (cases "get_default (map_of kw ''_request_options'') (PDict [])")
  case (PDict ro)
  with assms(5-7) construct_params_cong [OF assms(1-4)] show ?thesis
    by (simp add: construct_request_def Let_def)
qed (simp_all add: construct_request_def Let_def)

lemma operation_id_other_fields:
  "http_method (snd (operation_id self)) = http_method self"
  "path_name (snd (operation_id self)) = path_name self"
  "swagger_spec (snd (operation_id self)) = swagger_spec self"
  by (simp_all add: operation_id_snd)

text \<open>
  Claim C10. After \<^verbatim>\<open>construct_params\<close> and after \<^verbatim>\<open>construct_request\<close>, whether the call
  returned or raised, \<^verbatim>\<open>self.params\<close> is the same dict object with the same entries (the
  parameters are consumed in a copy at a fresh address), and the same call again on the
  operation and heap that the first call left gives the same result.
\<close>

theorem construct_request_keeps_params:
  assumes "params self < length h"
  shows "params (fst (snd (construct_params marshal_param self request kw h))) = params self \<and>
         snd (snd (construct_params marshal_param self request kw h)) ! params self =
           h ! params self \<and>
         params (fst (snd (construct_request marshal_param self kw h))) = params self \<and>
         snd (snd (construct_request marshal_param self kw h)) ! params self = h ! params self \<and>
         fst (construct_request marshal_param
                (fst (snd (construct_request marshal_param self kw h))) kw
                (snd (snd (construct_request marshal_param self kw h)))) =
           fst (construct_request marshal_param self kw h)"
proof -
  obtain r1 s1 h1 where p: "construct_params marshal_param self request kw h = (r1, s1, h1)"
    by (cases "construct_params marshal_param self request kw h") auto
  from construct_params_frame [OF p] assms
  have P: "params s1 = params self" "h1 ! params self = h ! params self"
    by (auto simp: nth_take [of "params self" "length h" h1, symmetric])
  obtain r2 s2 h2 where q: "construct_request marshal_param self kw h = (r2, s2, h2)"
    by (cases "construct_request marshal_param self kw h") auto
  from construct_request_frame [OF q]
  have len: "length h \<le> length h2" and tk: "take (length h) h2 = h"
    and s2: "s2 = self \<or> s2 = snd (operation_id self)" by simp_all
  from s2 have f: "params s2 = params self" "fst (operation_id s2) = fst (operation_id self)"
    "http_method s2 = http_method self" "path_name s2 = path_name self"
    "swagger_spec s2 = swagger_spec self"
    by (auto simp: operation_id_other_fields)
  from assms tk have cell: "h2 ! params self = h ! params self"
    by (metis nth_take)
  from assms len f(1) have v2: "params s2 < length h2" by simp
  from cell f(1) have c2: "h2 ! params s2 = h ! params self" by simp
  from construct_request_cong [OF v2 assms c2 f(2-5)]
  have "fst (construct_request marshal_param s2 kw h2) = fst (construct_request marshal_param self kw h)" .
  with P f(1) cell show ?thesis by (simp add: p q)
qed

theorem construct_request_keeps_params_witness:
  "snd (snd (construct_request marshal_query pet_op [(''petId'', PInt 7)] pet_heap)) ! 1 = pet_params \<and>
   snd (snd (construct_request marshal_query pet_op [(''bogus'', PInt 7)] pet_heap)) ! 1 = pet_params"
proof -
  have 1: "params pet_op < length pet_heap" by (simp add: pet_op_def pet_heap_def)
  have 2: "params pet_op = 1" "pet_heap ! 1 = pet_params" by (simp_all add: pet_op_def pet_heap_def)
  from construct_request_keeps_params [OF 1, of marshal_query pet_request "[(''petId'', PInt 7)]"]
       construct_request_keeps_params [OF 1, of marshal_query pet_request "[(''bogus'', PInt 7)]"]
  show ?thesis unfolding 2 by simp
qed

section \<open>Calls that do not return\<close>

text \<open>
  For every marshaler, also one that raises, and whatever the arguments are: a call that
  leaves a required parameter out never returns a request, so \<^verbatim>\<open>Operation.__call__\<close>
  never hands one to the transport.
\<close>

lemma construct_params_missing_required_never_returns:
  assumes "params self < length h" and "(k, q) \<in> set (h ! params self)" and "required q"
      and "k \<notin> fst ` set kw"
  shows "fst (construct_params marshal_param self request kw h) \<noteq> Inr request'"
proof
  assume r: "fst (construct_params marshal_param self request kw h) = Inr request'"
  let ?d = "h ! params self"
  let ?h1 = "h @ [?d]"
  obtain r1 s1 h1' where c: "consume_kwargs marshal_param (length h) kw request self ?h1 = (r1, s1, h1')"
    by (cases "consume_kwargs marshal_param (length h) kw request self ?h1") auto
  with r obtain req1 where r1: "r1 = Inr req1"
    by (cases r1) (auto simp: construct_params_def Let_def)
  have cur: "length h < length ?h1" by simp
  from consume_kwargs_success [OF cur c [unfolded r1]]
  have h1': "h1' = ?h1[length h := unsupplied ?d kw]" by simp
  from r c r1 h1'
  have "check_remaining marshal_param (map snd (unsupplied ?d kw)) req1 = Inr request'"
    by (simp add: construct_params_def Let_def)
  from check_remaining_success [OF this]
  have "\<forall>(k, p) \<in> set (unsupplied ?d kw). \<not> required p" by simp
  moreover from assms(2,4) have "(k, q) \<in> set (unsupplied ?d kw)"
    by (auto simp: unsupplied_def)
  ultimately show False using assms(3) by auto
qed

end
